theory Spec2Isabelle
  imports Complex_Main "HOL-Library.Char_ord" "HOL-Library.List_Lexorder"
begin

section \<open>Numeric cells\<close>

text \<open>
  A cell of a numeric pandas column is a float: a number, an infinity, or NaN, which is
  also how pandas stores an empty (null) CSV cell. Numbers are exact rationals here:
  rounding, overflow to infinity and the sign of zero are not part of the model.
  Arithmetic and comparisons follow IEEE 754 as numpy applies it: NaN propagates through
  arithmetic, every ordered comparison with NaN is false, and a division by zero gives
  NaN (for \<open>0/0\<close>) or an infinity without raising.
\<close>

datatype fl = Fin rat | PInf | NInf | NaN

fun fl_neg :: "fl \<Rightarrow> fl" where
  "fl_neg (Fin a) = Fin (- a)"
| "fl_neg PInf = NInf"
| "fl_neg NInf = PInf"
| "fl_neg NaN = NaN"

fun fl_add :: "fl \<Rightarrow> fl \<Rightarrow> fl" where
  "fl_add (Fin a) (Fin b) = Fin (a + b)"
| "fl_add (Fin a) PInf = PInf"
| "fl_add (Fin a) NInf = NInf"
| "fl_add PInf (Fin b) = PInf"
| "fl_add PInf PInf = PInf"
| "fl_add PInf NInf = NaN"
| "fl_add NInf (Fin b) = NInf"
| "fl_add NInf PInf = NaN"
| "fl_add NInf NInf = NInf"
| "fl_add NaN y = NaN"
| "fl_add x NaN = NaN"

definition fl_sub :: "fl \<Rightarrow> fl \<Rightarrow> fl" where
  "fl_sub x y = fl_add x (fl_neg y)"

text \<open>The infinity with the sign of \<open>a\<close>, for \<open>a \<noteq> 0\<close>.\<close>

definition inf_signed :: "rat \<Rightarrow> fl" where
  "inf_signed a = (if 0 < a then PInf else NInf)"

fun fl_mul :: "fl \<Rightarrow> fl \<Rightarrow> fl" where
  "fl_mul (Fin a) (Fin b) = Fin (a * b)"
| "fl_mul (Fin a) PInf = (if a = 0 then NaN else inf_signed a)"
| "fl_mul (Fin a) NInf = (if a = 0 then NaN else inf_signed (- a))"
| "fl_mul PInf (Fin b) = (if b = 0 then NaN else inf_signed b)"
| "fl_mul NInf (Fin b) = (if b = 0 then NaN else inf_signed (- b))"
| "fl_mul PInf PInf = PInf"
| "fl_mul PInf NInf = NInf"
| "fl_mul NInf PInf = NInf"
| "fl_mul NInf NInf = PInf"
| "fl_mul NaN y = NaN"
| "fl_mul x NaN = NaN"

fun fl_div :: "fl \<Rightarrow> fl \<Rightarrow> fl" where
  "fl_div (Fin a) (Fin b) =
     (if b = 0 then (if a = 0 then NaN else inf_signed a) else Fin (a / b))"
| "fl_div (Fin a) PInf = Fin 0"
| "fl_div (Fin a) NInf = Fin 0"
| "fl_div PInf (Fin b) = (if 0 \<le> b then PInf else NInf)"
| "fl_div NInf (Fin b) = (if 0 \<le> b then NInf else PInf)"
| "fl_div PInf PInf = NaN"
| "fl_div PInf NInf = NaN"
| "fl_div NInf PInf = NaN"
| "fl_div NInf NInf = NaN"
| "fl_div NaN y = NaN"
| "fl_div x NaN = NaN"

fun fl_lt :: "fl \<Rightarrow> fl \<Rightarrow> bool" where
  "fl_lt (Fin a) (Fin b) = (a < b)"
| "fl_lt (Fin a) PInf = True"
| "fl_lt NInf (Fin b) = True"
| "fl_lt NInf PInf = True"
| "fl_lt x y = False"

fun fl_le :: "fl \<Rightarrow> fl \<Rightarrow> bool" where
  "fl_le (Fin a) (Fin b) = (a \<le> b)"
| "fl_le (Fin a) PInf = True"
| "fl_le NInf (Fin b) = True"
| "fl_le NInf PInf = True"
| "fl_le PInf PInf = True"
| "fl_le NInf NInf = True"
| "fl_le x y = False"

definition fl_gt :: "fl \<Rightarrow> fl \<Rightarrow> bool" where
  "fl_gt x y = fl_lt y x"

definition fl_ge :: "fl \<Rightarrow> fl \<Rightarrow> bool" where
  "fl_ge x y = fl_le y x"

definition isna :: "fl \<Rightarrow> bool" where
  "isna x = (x = NaN)"

text \<open>
  The pandas reductions skip NaN. \<open>sum\<close> of nothing is 0; \<open>mean\<close>, \<open>max\<close> and
  \<open>median\<close> of nothing are NaN.
\<close>

definition dropna :: "fl list \<Rightarrow> fl list" where
  "dropna xs = filter (\<lambda>x. \<not> isna x) xs"

definition nansum :: "fl list \<Rightarrow> fl" where
  "nansum xs = foldl fl_add (Fin 0) (dropna xs)"

definition nanmean :: "fl list \<Rightarrow> fl" where
  "nanmean xs =
     (let ys = dropna xs
      in if ys = [] then NaN else fl_div (foldl fl_add (Fin 0) ys) (Fin (of_nat (length ys))))"

definition fl_max :: "fl \<Rightarrow> fl \<Rightarrow> fl" where
  "fl_max x y = (if fl_lt x y then y else x)"

definition nanmax :: "fl list \<Rightarrow> fl" where
  "nanmax xs = (case dropna xs of [] \<Rightarrow> NaN | y # ys \<Rightarrow> foldl fl_max y ys)"

fun fl_insort :: "fl \<Rightarrow> fl list \<Rightarrow> fl list" where
  "fl_insort x [] = [x]"
| "fl_insort x (y # ys) = (if fl_le x y then x # y # ys else y # fl_insort x ys)"

definition fl_sort :: "fl list \<Rightarrow> fl list" where
  "fl_sort xs = foldr fl_insort xs []"

definition nanmedian :: "fl list \<Rightarrow> fl" where
  "nanmedian xs =
     (let ys = fl_sort (dropna xs); n = length ys
      in if n = 0 then NaN
         else if odd n then ys ! (n div 2)
         else fl_div (fl_add (ys ! (n div 2 - 1)) (ys ! (n div 2))) (Fin 2))"

section \<open>Traffic records\<close>

text \<open>
  One row of the table read from the CSV file, with the nine required columns. The date
  cell is the text as loaded until \<open>validate_dates\<close> replaces it by the parsed
  timestamp; an empty date cell is \<open>NaT\<close>. The three categorical columns hold text and
  the five numeric columns hold floats: a numeric column read as text is outside this
  type.
\<close>

datatype date_cell = RawDate string | Stamp int | NaT

record row =
  date :: date_cell
  page :: string
  device :: string
  country :: string
  sessions :: fl
  users :: fl
  bounce_rate :: fl
  conversions :: fl
  avg_session_duration :: fl

type_synonym table = "row list"

section \<open>The cleaner: \<open>DataValidator.clean_data\<close>\<close>

text \<open>
  \<open>df.drop_duplicates()\<close> keeps the first occurrence of each row and the order of the
  rows it keeps; two NaN cells count as equal.
\<close>

fun drop_duplicates_from :: "row list \<Rightarrow> table \<Rightarrow> table" where
  "drop_duplicates_from seen [] = []"
| "drop_duplicates_from seen (r # rs) =
     (if r \<in> set seen then drop_duplicates_from seen rs
      else r # drop_duplicates_from (r # seen) rs)"

definition drop_duplicates :: "table \<Rightarrow> table" where
  "drop_duplicates df = drop_duplicates_from [] df"

text \<open>\<open>self.df[self.df['sessions'] > 0]\<close>: a NaN is not greater than 0.\<close>

definition remove_zero_sessions :: "table \<Rightarrow> table" where
  "remove_zero_sessions df = filter (\<lambda>r. fl_gt (sessions r) (Fin 0)) df"

text \<open>\<open>Series.clip(0, 1)\<close> leaves NaN as it is.\<close>

definition clip :: "fl \<Rightarrow> fl \<Rightarrow> fl \<Rightarrow> fl" where
  "clip lo hi x = (if isna x then x else if fl_lt x lo then lo else if fl_gt x hi then hi else x)"

definition clip_bounce_rate :: "table \<Rightarrow> table" where
  "clip_bounce_rate df = map (\<lambda>r. r\<lparr>bounce_rate := clip (Fin 0) (Fin 1) (bounce_rate r)\<rparr>) df"

text \<open>
  \<open>self.df[['conversions', 'sessions']].min(axis=1)\<close>: the row-wise minimum skips NaN
  and is NaN only when both cells are.
\<close>

definition row_min :: "fl \<Rightarrow> fl \<Rightarrow> fl" where
  "row_min x y = (if isna x then y else if isna y then x else if fl_lt y x then y else x)"

definition cap_conversions :: "table \<Rightarrow> table" where
  "cap_conversions df = map (\<lambda>r. r\<lparr>conversions := row_min (conversions r) (sessions r)\<rparr>) df"

text \<open>
  The loop over \<open>numeric_columns\<close>: for a column with at least one NaN the code calls
  \<open>self.df[col].fillna(0, inplace=True)\<close>, an in-place fill of the column object that
  \<open>self.df[col]\<close> returns. Whether that reaches the frame is up to the pandas at hand,
  and the source pins no version: \<open>writes_through\<close> is true where the column object
  shares the frame's data (pandas before 3.0) and false under copy-on-write (the only
  mode from pandas 3.0 on), where the call leaves the frame as it is.
\<close>

definition fillna0 :: "fl \<Rightarrow> fl" where
  "fillna0 x = (if isna x then Fin 0 else x)"

definition fill_sessions :: "bool \<Rightarrow> table \<Rightarrow> table" where
  "fill_sessions writes_through df =
     (if 0 < length (filter (\<lambda>r. isna (sessions r)) df)
      then (if writes_through then map (\<lambda>r. r\<lparr>sessions := fillna0 (sessions r)\<rparr>) df else df)
      else df)"

definition fill_users :: "bool \<Rightarrow> table \<Rightarrow> table" where
  "fill_users writes_through df =
     (if 0 < length (filter (\<lambda>r. isna (users r)) df)
      then (if writes_through then map (\<lambda>r. r\<lparr>users := fillna0 (users r)\<rparr>) df else df)
      else df)"

definition fill_conversions :: "bool \<Rightarrow> table \<Rightarrow> table" where
  "fill_conversions writes_through df =
     (if 0 < length (filter (\<lambda>r. isna (conversions r)) df)
      then (if writes_through then map (\<lambda>r. r\<lparr>conversions := fillna0 (conversions r)\<rparr>) df
            else df)
      else df)"

definition fill_bounce_rate :: "bool \<Rightarrow> table \<Rightarrow> table" where
  "fill_bounce_rate writes_through df =
     (if 0 < length (filter (\<lambda>r. isna (bounce_rate r)) df)
      then (if writes_through then map (\<lambda>r. r\<lparr>bounce_rate := fillna0 (bounce_rate r)\<rparr>) df
            else df)
      else df)"

definition fill_avg_session_duration :: "bool \<Rightarrow> table \<Rightarrow> table" where
  "fill_avg_session_duration writes_through df =
     (if 0 < length (filter (\<lambda>r. isna (avg_session_duration r)) df)
      then (if writes_through
            then map (\<lambda>r. r\<lparr>avg_session_duration := fillna0 (avg_session_duration r)\<rparr>) df
            else df)
      else df)"

definition fill_missing :: "bool \<Rightarrow> table \<Rightarrow> table" where
  "fill_missing writes_through df =
     fill_avg_session_duration writes_through
       (fill_bounce_rate writes_through
          (fill_conversions writes_through
             (fill_users writes_through (fill_sessions writes_through df))))"

text \<open>
  \<open>clean_data\<close> returns the cleaned frame (it also writes it to a file, which is not
  modelled). The number it prints, \<open>original_count - len(self.df)\<close> after the
  duplicates are dropped, is \<open>removed_duplicates\<close>.
\<close>

definition clean_data :: "bool \<Rightarrow> table \<Rightarrow> table" where
  "clean_data writes_through df =
     fill_missing writes_through
       (cap_conversions (clip_bounce_rate (remove_zero_sessions (drop_duplicates df))))"

definition removed_duplicates :: "table \<Rightarrow> nat" where
  "removed_duplicates df = length df - length (drop_duplicates df)"

section \<open>The aggregators of the dashboard (\<open>app.py\<close>)\<close>

text \<open>
  The aggregators receive a frame with the nine required columns (the dashboard loads the
  CSV file itself and does not run the cleaner). \<open>calculate_kpis\<close> returns a dict; its
  keys are the fields of \<open>kpis\<close>, prefixed to keep them apart from the columns.
\<close>

record kpis =
  kpi_total_sessions :: fl
  kpi_total_users :: fl
  kpi_total_conversions :: fl
  kpi_avg_bounce_rate :: fl
  kpi_avg_session_duration :: fl
  kpi_conversion_rate :: fl

definition calculate_kpis :: "table \<Rightarrow> kpis" where
  "calculate_kpis df =
     (let total_sessions = nansum (map sessions df);
          total_users = nansum (map users df);
          total_conversions = nansum (map conversions df);
          avg_bounce = nanmean (map bounce_rate df);
          avg_duration = nanmean (map avg_session_duration df);
          rate = (if fl_gt total_sessions (Fin 0)
                  then fl_mul (fl_div total_conversions total_sessions) (Fin 100)
                  else Fin 0)
      in \<lparr>kpi_total_sessions = total_sessions, kpi_total_users = total_users,
          kpi_total_conversions = total_conversions, kpi_avg_bounce_rate = avg_bounce,
          kpi_avg_session_duration = avg_duration, kpi_conversion_rate = rate\<rparr>)"

text \<open>
  \<open>df.groupby(key)\<close> makes one group per distinct key, in sorted key order;
  \<open>'sum'\<close> and \<open>'mean'\<close> are the NaN-skipping reductions over the group's rows.
\<close>

definition group_keys :: "(row \<Rightarrow> string) \<Rightarrow> table \<Rightarrow> string list" where
  "group_keys key df = sort (remdups (map key df))"

definition group_rows :: "(row \<Rightarrow> string) \<Rightarrow> string \<Rightarrow> table \<Rightarrow> table" where
  "group_rows key k df = filter (\<lambda>r. key r = k) df"

text \<open>
  \<open>page_stats\<close> after \<open>groupby('page').agg(...).reset_index()\<close> is a list of
  \<open>page_agg\<close>; the three columns that \<open>analyze_page_performance\<close> then adds extend it
  to \<open>page_stats\<close>.
\<close>

record page_agg =
  ps_page :: string
  ps_sessions :: fl
  ps_conversions :: fl
  ps_bounce_rate :: fl
  ps_avg_session_duration :: fl

record page_stats = page_agg +
  conversion_rate :: fl
  quality_score :: fl
  category :: string

definition group_pages :: "table \<Rightarrow> page_agg list" where
  "group_pages df =
     map (\<lambda>k. let g = group_rows page k df
              in \<lparr>ps_page = k,
                  ps_sessions = nansum (map sessions g),
                  ps_conversions = nansum (map conversions g),
                  ps_bounce_rate = nanmean (map bounce_rate g),
                  ps_avg_session_duration = nanmean (map avg_session_duration g)\<rparr>)
         (group_keys page df)"

text \<open>\<open>page_stats['conversions'] / page_stats['sessions'] * 100\<close>, with no guard.\<close>

definition page_conversion_rate :: "page_agg \<Rightarrow> fl" where
  "page_conversion_rate a = fl_mul (fl_div (ps_conversions a) (ps_sessions a)) (Fin 100)"

text \<open>
  The quality score as the code computes it: the three weighted terms are added from the
  left and the sum is multiplied by 100. \<open>dmax\<close> is
  \<open>page_stats['avg_session_duration'].max()\<close>.
\<close>

definition page_quality_score :: "fl \<Rightarrow> fl \<Rightarrow> fl \<Rightarrow> fl \<Rightarrow> fl" where
  "page_quality_score b cr d dmax =
     fl_mul
       (fl_add
          (fl_add (fl_mul (fl_sub (Fin 1) b) (Fin (3 / 10)))
                  (fl_mul (fl_div cr (Fin 100)) (Fin (4 / 10))))
          (fl_mul (fl_div d dmax) (Fin (3 / 10))))
       (Fin 100)"

text \<open>The formula in the words of the specification, to compare with the code's.\<close>

definition spec_quality_score :: "fl \<Rightarrow> fl \<Rightarrow> fl \<Rightarrow> fl \<Rightarrow> fl" where
  "spec_quality_score b cr d dmax =
     fl_mul (Fin 100)
       (fl_add
          (fl_add (fl_mul (Fin (3 / 10)) (fl_sub (Fin 1) b))
                  (fl_mul (Fin (4 / 10)) (fl_div cr (Fin 100))))
          (fl_mul (Fin (3 / 10)) (fl_div d dmax)))"

text \<open>
  The nested \<open>categorize_page\<close>, with the two medians it closes over as parameters and
  the two cells of the row it reads.
\<close>

definition categorize_page :: "fl \<Rightarrow> fl \<Rightarrow> fl \<Rightarrow> fl \<Rightarrow> string" where
  "categorize_page median_sessions median_conversions s cr =
     (if fl_ge s median_sessions \<and> fl_ge cr median_conversions then ''Star Performers''
      else if fl_ge s median_sessions \<and> fl_lt cr median_conversions
        then ''High Traffic - Low Conversion''
      else if fl_lt s median_sessions \<and> fl_ge cr median_conversions then ''Hidden Gems''
      else ''Needs Attention'')"

text \<open>
  Everything \<open>analyze_page_performance\<close> does after the grouping: the scorer and the
  categorizer over the page aggregates.
\<close>

definition score_pages :: "page_agg list \<Rightarrow> page_stats list" where
  "score_pages aggs =
     (let dmax = nanmax (map ps_avg_session_duration aggs);
          median_sessions = nanmedian (map ps_sessions aggs);
          median_conversions = nanmedian (map page_conversion_rate aggs)
      in map (\<lambda>a. \<lparr>ps_page = ps_page a, ps_sessions = ps_sessions a,
                    ps_conversions = ps_conversions a, ps_bounce_rate = ps_bounce_rate a,
                    ps_avg_session_duration = ps_avg_session_duration a,
                    conversion_rate = page_conversion_rate a,
                    quality_score =
                      page_quality_score (ps_bounce_rate a) (page_conversion_rate a)
                        (ps_avg_session_duration a) dmax,
                    category =
                      categorize_page median_sessions median_conversions (ps_sessions a)
                        (page_conversion_rate a)\<rparr>)
             aggs)"

definition analyze_page_performance :: "table \<Rightarrow> page_stats list" where
  "analyze_page_performance df = score_pages (group_pages df)"

text \<open>
  \<open>analyze_device_performance\<close> and \<open>analyze_country_performance\<close> are the same code
  up to the grouping column.
\<close>

record segment_stats =
  seg_key :: string
  seg_sessions :: fl
  seg_users :: fl
  seg_conversions :: fl
  seg_bounce_rate :: fl
  seg_avg_session_duration :: fl
  seg_conversion_rate :: fl

definition analyze_segment :: "(row \<Rightarrow> string) \<Rightarrow> table \<Rightarrow> segment_stats list" where
  "analyze_segment key df =
     map (\<lambda>k. let g = group_rows key k df;
                  s = nansum (map sessions g);
                  c = nansum (map conversions g)
              in \<lparr>seg_key = k, seg_sessions = s, seg_users = nansum (map users g),
                  seg_conversions = c, seg_bounce_rate = nanmean (map bounce_rate g),
                  seg_avg_session_duration = nanmean (map avg_session_duration g),
                  seg_conversion_rate = fl_mul (fl_div c s) (Fin 100)\<rparr>)
         (group_keys key df)"

definition analyze_device_performance :: "table \<Rightarrow> segment_stats list" where
  "analyze_device_performance df = analyze_segment device df"

definition analyze_country_performance :: "table \<Rightarrow> segment_stats list" where
  "analyze_country_performance df = analyze_segment country df"

section \<open>The validator: \<open>DataValidator\<close>\<close>

text \<open>
  The frame the validator loads has a header, which may lack required columns, and rows.
  A column that is not in the header is never read: every access goes through \<open>col\<close>,
  and \<open>self.df[name]\<close> on a missing column raises \<open>KeyError\<close>.
\<close>

datatype error = KeyError string | TypeError | ZeroDivisionError

record dataframe =
  columns :: "string list"
  rows :: table

definition col :: "dataframe \<Rightarrow> string \<Rightarrow> (row \<Rightarrow> 'a) \<Rightarrow> error + 'a list" where
  "col d name f = (if name \<in> set (columns d) then Inr (map f (rows d)) else Inl (KeyError name))"

text \<open>
  The dtype of the numeric columns. \<open>pd.read_csv\<close> gives a column with cells that are
  numbers or empty a float or integer dtype, and the columns of a file with a header and
  no record the object dtype, which is not numeric and whose sum is the Python integer 0.
\<close>

definition is_numeric_dtype :: "dataframe \<Rightarrow> bool" where
  "is_numeric_dtype d = (rows d \<noteq> [])"

text \<open>
  The entries of \<open>self.issues\<close>. The source appends formatted strings; each constructor
  carries the numbers and names that its string shows, the missing columns in the order
  in which the string lists them. The text of a caught exception in the date issue is
  not kept.
\<close>

datatype issue =
    MissingColumns "string list"
  | FutureDates nat
  | DateParsingError
  | NotNumeric string
  | NegativeValues nat string
  | InvalidBounceRate nat
  | MissingValues nat string
  | SessionsLtUsers nat
  | ConversionsGtSessions nat
  | ZeroSessions nat

text \<open>
  The state of a \<open>DataValidator\<close>: its frame and its issues. Of what it prints, the
  headers of the steps that \<open>run_full_validation\<close> starts are kept, in \<open>printed\<close>.
\<close>

record validator =
  df :: dataframe
  issues :: "issue list"
  printed :: "string list"

text \<open>A step either returns its boolean or ends in an exception that nobody catches.\<close>

datatype 'a result = Raised error validator | Done 'a validator

definition append_issue :: "issue \<Rightarrow> validator \<Rightarrow> validator" where
  "append_issue i v = v\<lparr>issues := issues v @ [i]\<rparr>"

definition count_where :: "('a \<Rightarrow> bool) \<Rightarrow> 'a list \<Rightarrow> nat" where
  "count_where P xs = length (filter P xs)"

definition required_columns :: "string list" where
  "required_columns =
     [''date'', ''page'', ''device'', ''country'', ''sessions'', ''users'', ''bounce_rate'',
      ''conversions'', ''avg_session_duration'']"

text \<open>
  \<open>validate_columns\<close> formats the Python set of the missing columns into its issue.
  The text lists the set in its iteration order, which depends on the string hashes of
  the process and so on its hash seed: \<open>set_order\<close> is that order.
\<close>

definition validate_columns :: "(string set \<Rightarrow> string list) \<Rightarrow> validator \<Rightarrow> bool result" where
  "validate_columns set_order v =
     (let missing_columns = set required_columns - set (columns (df v))
      in if missing_columns \<noteq> {}
         then Done False (append_issue (MissingColumns (set_order missing_columns)) v)
         else Done True v)"

text \<open>
  \<open>pd.to_datetime(column, format='%d-%m-%Y %H:%M')\<close>. The parser of one cell's text is
  a parameter, \<open>None\<close> where the text does not parse, which makes \<open>to_datetime\<close>
  raise for the whole column. An empty cell stays \<open>NaT\<close>.
\<close>

fun parse_cell :: "(string \<Rightarrow> int option) \<Rightarrow> date_cell \<Rightarrow> date_cell option" where
  "parse_cell parse (RawDate s) = map_option Stamp (parse s)"
| "parse_cell parse (Stamp t) = Some (Stamp t)"
| "parse_cell parse NaT = Some NaT"

fun to_datetime :: "(string \<Rightarrow> int option) \<Rightarrow> table \<Rightarrow> table option" where
  "to_datetime parse [] = Some []"
| "to_datetime parse (r # rs) =
     (case parse_cell parse (date r) of
        None \<Rightarrow> None
      | Some c \<Rightarrow> map_option ((#) (r\<lparr>date := c\<rparr>)) (to_datetime parse rs))"

fun is_future :: "int \<Rightarrow> date_cell \<Rightarrow> bool" where
  "is_future now (Stamp t) = (now < t)"
| "is_future now c = False"

text \<open>
  \<open>validate_dates\<close> catches every exception of its body: the \<open>KeyError\<close> of a missing
  \<open>date\<close> column as well as a parsing error. \<open>now\<close> is \<open>datetime.now()\<close>.
\<close>

definition validate_dates :: "(string \<Rightarrow> int option) \<Rightarrow> int \<Rightarrow> validator \<Rightarrow> bool result" where
  "validate_dates parse now v =
     (if ''date'' \<notin> set (columns (df v)) then Done False (append_issue DateParsingError v)
      else case to_datetime parse (rows (df v)) of
        None \<Rightarrow> Done False (append_issue DateParsingError v)
      | Some parsed \<Rightarrow>
          (let v1 = v\<lparr>df := (df v)\<lparr>rows := parsed\<rparr>\<rparr>;
               future_dates = count_where (\<lambda>r. is_future now (date r)) parsed
           in Done True (if 0 < future_dates then append_issue (FutureDates future_dates) v1 else v1)))"

text \<open>
  One round of the loop of \<open>validate_numeric_columns\<close>, for the column \<open>name\<close>; the
  result is false when the round clears \<open>all_valid\<close>.
\<close>

definition check_numeric_column :: "string \<Rightarrow> (row \<Rightarrow> fl) \<Rightarrow> validator \<Rightarrow> bool result" where
  "check_numeric_column name f v =
     (case col (df v) name f of
        Inl e \<Rightarrow> Raised e v
      | Inr xs \<Rightarrow>
          if \<not> is_numeric_dtype (df v) then Done False (append_issue (NotNumeric name) v)
          else
          (let negative_count = count_where (\<lambda>x. fl_lt x (Fin 0)) xs;
               v1 = (if name \<noteq> ''bounce_rate'' \<and> 0 < negative_count
                     then append_issue (NegativeValues negative_count name) v else v);
               invalid_bounce = count_where (\<lambda>x. fl_lt x (Fin 0) \<or> fl_gt x (Fin 1)) xs;
               v2 = (if name = ''bounce_rate'' \<and> 0 < invalid_bounce
                     then append_issue (InvalidBounceRate invalid_bounce) v1 else v1);
               missing_count = count_where isna xs;
               v3 = (if 0 < missing_count
                     then append_issue (MissingValues missing_count name) v2 else v2)
           in Done True v3))"

fun numeric_loop :: "(string \<times> (row \<Rightarrow> fl)) list \<Rightarrow> bool \<Rightarrow> validator \<Rightarrow> bool result" where
  "numeric_loop [] all_valid v = Done all_valid v"
| "numeric_loop ((name, f) # cols) all_valid v =
     (case check_numeric_column name f v of
        Raised e v' \<Rightarrow> Raised e v'
      | Done ok v' \<Rightarrow> numeric_loop cols (if \<not> ok then False else all_valid) v')"

definition numeric_cols :: "(string \<times> (row \<Rightarrow> fl)) list" where
  "numeric_cols =
     [(''sessions'', sessions), (''users'', users), (''conversions'', conversions),
      (''bounce_rate'', bounce_rate), (''avg_session_duration'', avg_session_duration)]"

definition validate_numeric_columns :: "validator \<Rightarrow> bool result" where
  "validate_numeric_columns v = numeric_loop numeric_cols True v"

text \<open>
  \<open>validate_categorical_columns\<close> only prints, but it reads the three columns and so
  raises on the first that is missing.
\<close>

fun first_missing :: "string list \<Rightarrow> dataframe \<Rightarrow> string option" where
  "first_missing [] d = None"
| "first_missing (name # names) d =
     (if name \<in> set (columns d) then first_missing names d else Some name)"

definition validate_categorical_columns :: "validator \<Rightarrow> bool result" where
  "validate_categorical_columns v =
     (case first_missing [''page'', ''device'', ''country''] (df v) of
        Some name \<Rightarrow> Raised (KeyError name) v
      | None \<Rightarrow> Done True v)"

definition check_data_quality :: "validator \<Rightarrow> bool result" where
  "check_data_quality v =
     (case first_missing [''sessions'', ''users''] (df v) of
        Some name \<Rightarrow> Raised (KeyError name) v
      | None \<Rightarrow>
          (let invalid_sessions = count_where (\<lambda>r. fl_lt (sessions r) (users r)) (rows (df v));
               v1 = (if 0 < invalid_sessions
                     then append_issue (SessionsLtUsers invalid_sessions) v else v)
           in case first_missing [''conversions''] (df v) of
                Some name \<Rightarrow> Raised (KeyError name) v1
              | None \<Rightarrow>
                  (let invalid_conversions =
                         count_where (\<lambda>r. fl_gt (conversions r) (sessions r)) (rows (df v));
                       v2 = (if 0 < invalid_conversions
                             then append_issue (ConversionsGtSessions invalid_conversions) v1
                             else v1);
                       zero_sessions = count_where (\<lambda>r. sessions r = Fin 0) (rows (df v));
                       v3 = (if 0 < zero_sessions
                             then append_issue (ZeroSessions zero_sessions) v2 else v2)
                   in Done True v3)))"

text \<open>
  The \<open>Date Range\<close> entry of \<open>generate_summary_stats\<close>:
  \<open>self.df['date'].min()\<close> and \<open>.max()\<close>. On a parsed column they skip the empty
  cells. A column that still holds the loaded text is an object column: its minimum is
  the least text, but when it also has a cell that is not text (an empty cell, which
  pandas fills with an infinity for the comparison) the comparison of a text with a
  number raises \<open>TypeError\<close>. A column with no cell has the range NaT to NaT.
\<close>

fun is_text :: "date_cell \<Rightarrow> bool" where
  "is_text (RawDate s) = True"
| "is_text c = False"

definition date_range_raises :: "date_cell list \<Rightarrow> bool" where
  "date_range_raises cells = ((\<exists>c\<in>set cells. is_text c) \<and> (\<exists>c\<in>set cells. \<not> is_text c))"

definition least_cell :: "date_cell list \<Rightarrow> date_cell" where
  "least_cell cells =
     (case [s. RawDate s \<leftarrow> cells] of
        s # ss \<Rightarrow> RawDate (fold min ss s)
      | [] \<Rightarrow> (case [t. Stamp t \<leftarrow> cells] of t # ts \<Rightarrow> Stamp (fold min ts t) | [] \<Rightarrow> NaT))"

definition greatest_cell :: "date_cell list \<Rightarrow> date_cell" where
  "greatest_cell cells =
     (case [s. RawDate s \<leftarrow> cells] of
        s # ss \<Rightarrow> RawDate (fold max ss s)
      | [] \<Rightarrow> (case [t. Stamp t \<leftarrow> cells] of t # ts \<Rightarrow> Stamp (fold max ts t) | [] \<Rightarrow> NaT))"

definition date_range :: "date_cell list \<Rightarrow> error + date_cell \<times> date_cell" where
  "date_range cells =
     (if date_range_raises cells then Inl TypeError
      else Inr (least_cell cells, greatest_cell cells))"

text \<open>
  The dict of \<open>generate_summary_stats\<close>, before its values are formatted for printing,
  its entries evaluated in the order of the source. The rate is divided with no guard:
  the sums of numeric columns are numpy numbers, whose division by zero gives NaN or an
  infinity, and the sums of a frame with no record are Python integers, whose division
  raises.
\<close>

record summary_stats =
  st_total_records :: nat
  st_date_range :: "date_cell \<times> date_cell"
  st_total_sessions :: fl
  st_total_users :: fl
  st_total_conversions :: fl
  st_avg_bounce_rate :: fl
  st_avg_session_duration :: fl
  st_overall_conversion_rate :: fl

definition generate_summary_stats :: "dataframe \<Rightarrow> error + summary_stats" where
  "generate_summary_stats d =
     (case first_missing [''date''] d of
        Some name \<Rightarrow> Inl (KeyError name)
      | None \<Rightarrow>
          (case date_range (map date (rows d)) of
             Inl e \<Rightarrow> Inl e
           | Inr dates \<Rightarrow>
               (case first_missing [''sessions'', ''users'', ''conversions'', ''bounce_rate'',
                                    ''avg_session_duration''] d of
                  Some name \<Rightarrow> Inl (KeyError name)
                | None \<Rightarrow>
                    if \<not> is_numeric_dtype d then Inl ZeroDivisionError
                    else
                    Inr \<lparr>st_total_records = length (rows d),
                         st_date_range = dates,
                         st_total_sessions = nansum (map sessions (rows d)),
                         st_total_users = nansum (map users (rows d)),
                         st_total_conversions = nansum (map conversions (rows d)),
                         st_avg_bounce_rate = fl_mul (nanmean (map bounce_rate (rows d))) (Fin 100),
                         st_avg_session_duration = nanmean (map avg_session_duration (rows d)),
                         st_overall_conversion_rate =
                           fl_mul (fl_div (nansum (map conversions (rows d)))
                                          (nansum (map sessions (rows d)))) (Fin 100)\<rparr>)))"

text \<open>The step of the pipeline: the dict it returns is not empty, hence true.\<close>

definition summary_step :: "validator \<Rightarrow> bool result" where
  "summary_step v =
     (case generate_summary_stats (df v) of
        Inl e \<Rightarrow> Raised e v
      | Inr stats \<Rightarrow> Done True v)"

text \<open>
  \<open>clean_data\<close> as the method of the validator: it reads the five numeric columns, in
  this order, and replaces the frame.
\<close>

definition clean_frame :: "bool \<Rightarrow> validator \<Rightarrow> unit result" where
  "clean_frame writes_through v =
     (case first_missing [''sessions'', ''bounce_rate'', ''conversions'', ''users'',
                          ''avg_session_duration''] (df v) of
        Some name \<Rightarrow> Raised (KeyError name) v
      | None \<Rightarrow>
          Done () (v\<lparr>df := (df v)\<lparr>rows := clean_data writes_through (rows (df v))\<rparr>\<rparr>))"

text \<open>
  The loop over the steps of \<open>run_full_validation\<close>: each step's header is printed, the
  step runs, and a false result clears \<open>all_passed\<close>. Nothing leaves the loop early but
  an exception.
\<close>

fun run_steps :: "(string \<times> (validator \<Rightarrow> bool result)) list \<Rightarrow> bool \<Rightarrow> validator \<Rightarrow> bool result" where
  "run_steps [] all_passed v = Done all_passed v"
| "run_steps ((step_name, step_func) # steps) all_passed v =
     (case step_func (v\<lparr>printed := printed v @ [step_name]\<rparr>) of
        Raised e v' \<Rightarrow> Raised e v'
      | Done r v' \<Rightarrow> run_steps steps (if \<not> r then False else all_passed) v')"

definition steps ::
  "(string set \<Rightarrow> string list) \<Rightarrow> (string \<Rightarrow> int option) \<Rightarrow> int \<Rightarrow>
   (string \<times> (validator \<Rightarrow> bool result)) list" where
  "steps set_order parse now =
     [(''Column Validation'', validate_columns set_order),
      (''Date Validation'', validate_dates parse now),
      (''Numeric Validation'', validate_numeric_columns),
      (''Categorical Validation'', validate_categorical_columns),
      (''Quality Checks'', check_data_quality),
      (''Summary Statistics'', summary_step)]"

text \<open>
  \<open>run_full_validation\<close>. \<open>loaded\<close> is what \<open>load_data\<close> read (\<open>None\<close> when it
  failed), \<open>now\<close> the clock and \<open>response\<close> what the operator types when asked whether to
  clean; the question is asked only when there are issues. \<open>writes_through\<close> and
  \<open>set_order\<close> are the behaviour of the pandas and of the Python process at hand.
\<close>

datatype outcome = LoadFailed | Uncaught error validator | Returned bool validator

definition run_full_validation ::
  "bool \<Rightarrow> (string set \<Rightarrow> string list) \<Rightarrow> (string \<Rightarrow> int option) \<Rightarrow> int \<Rightarrow> string \<Rightarrow>
   dataframe option \<Rightarrow> outcome" where
  "run_full_validation writes_through set_order parse now response loaded =
     (case loaded of
        None \<Rightarrow> LoadFailed
      | Some d \<Rightarrow>
          (case run_steps (steps set_order parse now) True \<lparr>df = d, issues = [], printed = []\<rparr> of
             Raised e v \<Rightarrow> Uncaught e v
           | Done all_passed v \<Rightarrow>
               (if issues v \<noteq> [] \<and> (response = ''y'' \<or> response = ''Y'')
                then (case clean_frame writes_through v of
                        Raised e v' \<Rightarrow> Uncaught e v'
                      | Done u v' \<Rightarrow> Returned all_passed v')
                else Returned all_passed v)))"

section \<open>Notions used in the statements\<close>

text \<open>A float that is a number: neither an infinity nor NaN.\<close>

fun is_finite :: "fl \<Rightarrow> bool" where
  "is_finite (Fin a) = True"
| "is_finite x = False"

text \<open>
  A page aggregate that meets the invariants of the data model: a positive number of
  sessions, conversions between 0 and the sessions, a bounce rate in the unit interval
  and a duration that is not negative.
\<close>

definition valid_page_agg :: "page_agg \<Rightarrow> bool" where
  "valid_page_agg a =
     (is_finite (ps_sessions a) \<and> fl_lt (Fin 0) (ps_sessions a) \<and>
      fl_le (Fin 0) (ps_conversions a) \<and> fl_le (ps_conversions a) (ps_sessions a) \<and>
      fl_le (Fin 0) (ps_bounce_rate a) \<and> fl_le (ps_bounce_rate a) (Fin 1) \<and>
      is_finite (ps_avg_session_duration a) \<and> fl_le (Fin 0) (ps_avg_session_duration a))"

text \<open>
  The row-wise form of the cleaner's last three stages, and the rows that these stages
  leave as they are, for either behaviour of the in-place fill.
\<close>

definition clean_row :: "bool \<Rightarrow> row \<Rightarrow> row" where
  "clean_row writes_through r =
     (if writes_through
      then r\<lparr>bounce_rate := fillna0 (clip (Fin 0) (Fin 1) (bounce_rate r)),
             conversions := fillna0 (row_min (conversions r) (sessions r)),
             sessions := fillna0 (sessions r),
             users := fillna0 (users r),
             avg_session_duration := fillna0 (avg_session_duration r)\<rparr>
      else r\<lparr>bounce_rate := clip (Fin 0) (Fin 1) (bounce_rate r),
             conversions := row_min (conversions r) (sessions r)\<rparr>)"

definition cleaned :: "bool \<Rightarrow> row \<Rightarrow> bool" where
  "cleaned writes_through r =
     (fl_gt (sessions r) (Fin 0) \<and> fl_le (conversions r) (sessions r) \<and>
      (if writes_through
       then \<not> isna (users r) \<and> fl_le (Fin 0) (bounce_rate r) \<and> fl_le (bounce_rate r) (Fin 1) \<and>
            \<not> isna (avg_session_duration r)
       else isna (bounce_rate r) \<or> fl_le (Fin 0) (bounce_rate r) \<and> fl_le (bounce_rate r) (Fin 1)))"

text \<open>The validator a step ends in, and the one a run ends in.\<close>

fun state_of :: "'a result \<Rightarrow> validator" where
  "state_of (Raised e v) = v"
| "state_of (Done r v) = v"

fun final_state :: "outcome \<Rightarrow> validator option" where
  "final_state LoadFailed = None"
| "final_state (Uncaught e v) = Some v"
| "final_state (Returned r v) = Some v"

text \<open>
  The frame after \<open>validate_dates\<close>: the date column parsed when it exists and every
  date parses, the frame as it was otherwise. \<open>erase_date\<close> blanks the date cell, to
  compare rows on the other eight columns.
\<close>

definition dates_parsed :: "(string \<Rightarrow> int option) \<Rightarrow> dataframe \<Rightarrow> dataframe" where
  "dates_parsed parse d =
     (if ''date'' \<in> set (columns d)
      then (case to_datetime parse (rows d) of None \<Rightarrow> d | Some parsed \<Rightarrow> d\<lparr>rows := parsed\<rparr>)
      else d)"

definition erase_date :: "row \<Rightarrow> row" where
  "erase_date r = r\<lparr>date := NaT\<rparr>"

text \<open>
  A step that leaves the frame and the printed headers alone and can only add issues, a
  step that leaves the header alone, and the last three steps of the pipeline.
\<close>

definition keeps :: "(validator \<Rightarrow> bool result) \<Rightarrow> bool" where
  "keeps step = (\<forall>v. df (state_of (step v)) = df v \<and> printed (state_of (step v)) = printed v \<and>
                   (\<exists>more. issues (state_of (step v)) = issues v @ more))"

definition keeps_columns :: "(validator \<Rightarrow> bool result) \<Rightarrow> bool" where
  "keeps_columns step = (\<forall>v. columns (df (state_of (step v))) = columns (df v))"

definition rest_steps :: "(string \<times> (validator \<Rightarrow> bool result)) list" where
  "rest_steps =
     [(''Categorical Validation'', validate_categorical_columns),
      (''Quality Checks'', check_data_quality),
      (''Summary Statistics'', summary_step)]"

section \<open>Sample data\<close>

text \<open>
  A raw record with an out-of-range bounce rate and more conversions than sessions, a
  record with no sessions, and a record whose bounce rate cell is empty.
\<close>

definition sample_row :: row where
  "sample_row =
     \<lparr>date = RawDate ''01-01-2024 10:00'', page = ''home'', device = ''mobile'',
      country = ''PK'', sessions = Fin 100, users = Fin 80, bounce_rate = Fin (3 / 2),
      conversions = Fin 120, avg_session_duration = Fin 60\<rparr>"

definition zero_row :: row where
  "zero_row = sample_row\<lparr>sessions := Fin 0, conversions := Fin 0, bounce_rate := Fin (1 / 2)\<rparr>"

definition cleaned_sample_row :: row where
  "cleaned_sample_row = sample_row\<lparr>bounce_rate := Fin 1, conversions := Fin 100\<rparr>"

definition null_bounce_row :: row where
  "null_bounce_row = sample_row\<lparr>bounce_rate := NaN\<rparr>"

definition dup_table :: table where
  "dup_table = [sample_row, sample_row\<lparr>bounce_rate := Fin 2\<rparr>]"

definition null_sessions_table :: table where
  "null_sessions_table = [sample_row\<lparr>sessions := NaN\<rparr>, sample_row]"

definition sample_page_agg :: page_agg where
  "sample_page_agg =
     \<lparr>ps_page = ''home'', ps_sessions = Fin 100, ps_conversions = Fin 5,
      ps_bounce_rate = Fin (1 / 2), ps_avg_session_duration = Fin 60\<rparr>"

definition overcounted_page_agg :: page_agg where
  "overcounted_page_agg =
     \<lparr>ps_page = ''home'', ps_sessions = Fin 10, ps_conversions = Fin 20,
      ps_bounce_rate = Fin 0, ps_avg_session_duration = Fin 60\<rparr>"

text \<open>
  A date parser for the two texts of the samples, in minutes since 1970-01-01 00:00, two
  orders in which a process may list a set of names, and frames: complete, complete with
  a date in 2030, without the \<open>page\<close> column, with the record that has no sessions,
  without \<open>page\<close> and \<open>device\<close>, with no sessions and 3 conversions, with no
  record, and with no sessions, a date that does not parse and an empty date cell.
\<close>

definition sample_parse :: "string \<Rightarrow> int option" where
  "sample_parse s =
     (if s = ''01-01-2024 10:00'' then Some 28401720
      else if s = ''01-01-2030 10:00'' then Some 31558200
      else None)"

definition name_order :: "string set \<Rightarrow> string list" where
  "name_order names = sorted_list_of_set names"


definition sample_frame :: dataframe where
  "sample_frame = \<lparr>columns = required_columns, rows = [sample_row]\<rparr>"


definition no_page_frame :: dataframe where
  "no_page_frame =
     \<lparr>columns = [''date'', ''device'', ''country'', ''sessions'', ''users'', ''bounce_rate'',
                 ''conversions'', ''avg_session_duration''],
      rows = [sample_row\<lparr>date := RawDate ''01-01-2030 10:00'', page := []\<rparr>]\<rparr>"

definition zero_frame :: dataframe where
  "zero_frame = \<lparr>columns = required_columns, rows = [zero_row]\<rparr>"


definition converting_frame :: dataframe where
  "converting_frame = \<lparr>columns = required_columns, rows = [zero_row\<lparr>conversions := Fin 3\<rparr>]\<rparr>"

definition empty_frame :: dataframe where
  "empty_frame = \<lparr>columns = required_columns, rows = []\<rparr>"

definition mixed_dates_frame :: dataframe where
  "mixed_dates_frame =
     \<lparr>columns = required_columns,
      rows = [zero_row\<lparr>date := RawDate ''tomorrow''\<rparr>, zero_row\<lparr>date := NaT\<rparr>]\<rparr>"

section \<open>Properties of the cleaner\<close>

subsection \<open>Dropping duplicates\<close>

lemma set_drop_duplicates_from: "set (drop_duplicates_from seen tb) = set tb - set seen"
  by (induction tb arbitrary: seen) auto

lemma distinct_drop_duplicates_from: "distinct (drop_duplicates_from seen tb)"
  by (induction tb arbitrary: seen) (auto simp: set_drop_duplicates_from)

lemma drop_duplicates_from_distinct:
  "distinct tb \<Longrightarrow> set tb \<inter> set seen = {} \<Longrightarrow> drop_duplicates_from seen tb = tb"
  by (induction tb arbitrary: seen) auto

lemma set_drop_duplicates: "set (drop_duplicates tb) = set tb"
  by (simp add: drop_duplicates_def set_drop_duplicates_from)

lemma distinct_drop_duplicates: "distinct (drop_duplicates tb)"
  by (simp add: drop_duplicates_def distinct_drop_duplicates_from)

lemma drop_duplicates_distinct: "distinct tb \<Longrightarrow> drop_duplicates tb = tb"
  by (simp add: drop_duplicates_def drop_duplicates_from_distinct)

text \<open>
  Filtering after the duplicates are dropped only looks at the rows that pass the filter:
  rows that fail it may be removed beforehand, and the rows already seen matter only as
  far as they pass it.
\<close>

lemma filter_drop_duplicates_from_seen:
  "(\<And>x. P x \<Longrightarrow> (x \<in> set s1) = (x \<in> set s2)) \<Longrightarrow>
   filter P (drop_duplicates_from s1 tb) = filter P (drop_duplicates_from s2 tb)"
proof (induction tb arbitrary: s1 s2)
  case Nil
  then show ?case by simp
next
  case (Cons r rs)
  show ?case
  proof (cases "P r")
    case True
    have eq: "(r \<in> set s1) = (r \<in> set s2)" using Cons.prems True by blast
    have "filter P (drop_duplicates_from (r # s1) rs) = filter P (drop_duplicates_from (r # s2) rs)"
      by (rule Cons.IH) (use Cons.prems in auto)
    moreover have "filter P (drop_duplicates_from s1 rs) = filter P (drop_duplicates_from s2 rs)"
      by (rule Cons.IH) (use Cons.prems in auto)
    ultimately show ?thesis using eq by simp
  next
    case False
    have a: "filter P (drop_duplicates_from t1 rs) = filter P (drop_duplicates_from t2 rs)"
      if "t1 = s1 \<or> t1 = r # s1" "t2 = s2 \<or> t2 = r # s2" for t1 t2
      by (rule Cons.IH) (use that Cons.prems False in auto)
    show ?thesis using False by (auto intro: a)
  qed
qed

lemma filter_drop_duplicates_from_filter:
  "(\<And>x. P x \<Longrightarrow> Q x) \<Longrightarrow>
   filter P (drop_duplicates_from seen (filter Q tb)) = filter P (drop_duplicates_from seen tb)"
proof (induction tb arbitrary: seen)
  case Nil
  then show ?case by simp
next
  case (Cons r rs)
  show ?case
  proof (cases "Q r")
    case True
    then show ?thesis using Cons by simp
  next
    case False
    then have np: "\<not> P r" using Cons.prems by blast
    have "filter P (drop_duplicates_from (r # seen) rs) = filter P (drop_duplicates_from seen rs)"
      by (rule filter_drop_duplicates_from_seen) (use np in auto)
    then show ?thesis using False np Cons by simp
  qed
qed

subsection \<open>The stages, row by row\<close>

lemma any_filter: "(0 < length (filter P xs)) = (\<exists>x\<in>set xs. P x)"
  by (induction xs) auto

lemma fill_sessions_map:
  "fill_sessions True tb = map (\<lambda>r. r\<lparr>sessions := fillna0 (sessions r)\<rparr>) tb"
  unfolding fill_sessions_def any_filter
  by (auto simp: fillna0_def intro!: map_idI[symmetric])

lemma fill_users_map: "fill_users True tb = map (\<lambda>r. r\<lparr>users := fillna0 (users r)\<rparr>) tb"
  unfolding fill_users_def any_filter
  by (auto simp: fillna0_def intro!: map_idI[symmetric])

lemma fill_conversions_map:
  "fill_conversions True tb = map (\<lambda>r. r\<lparr>conversions := fillna0 (conversions r)\<rparr>) tb"
  unfolding fill_conversions_def any_filter
  by (auto simp: fillna0_def intro!: map_idI[symmetric])

lemma fill_bounce_rate_map:
  "fill_bounce_rate True tb = map (\<lambda>r. r\<lparr>bounce_rate := fillna0 (bounce_rate r)\<rparr>) tb"
  unfolding fill_bounce_rate_def any_filter
  by (auto simp: fillna0_def intro!: map_idI[symmetric])

lemma fill_avg_session_duration_map:
  "fill_avg_session_duration True tb =
     map (\<lambda>r. r\<lparr>avg_session_duration := fillna0 (avg_session_duration r)\<rparr>) tb"
  unfolding fill_avg_session_duration_def any_filter
  by (auto simp: fillna0_def intro!: map_idI[symmetric])

lemma fill_column_off:
  "fill_sessions False tb = tb" "fill_users False tb = tb" "fill_conversions False tb = tb"
  "fill_bounce_rate False tb = tb" "fill_avg_session_duration False tb = tb"
  by (simp_all add: fill_sessions_def fill_users_def fill_conversions_def
      fill_bounce_rate_def fill_avg_session_duration_def)

lemma fill_missing_off: "fill_missing False tb = tb"
  by (simp add: fill_missing_def fill_column_off)

lemma clean_data_rows:
  "clean_data writes_through tb =
     map (clean_row writes_through) (remove_zero_sessions (drop_duplicates tb))"
proof (cases writes_through)
  case True
  then show ?thesis
    by (simp add: clean_data_def fill_missing_def fill_sessions_map fill_users_map
        fill_conversions_map fill_bounce_rate_map fill_avg_session_duration_map
        cap_conversions_def clip_bounce_rate_def clean_row_def comp_def)
next
  case False
  then show ?thesis
    by (simp add: clean_data_def fill_missing_off cap_conversions_def clip_bounce_rate_def
        clean_row_def comp_def)
qed

lemma clip_unit:
  "isna (clip (Fin 0) (Fin 1) x) \<or>
   fl_le (Fin 0) (clip (Fin 0) (Fin 1) x) \<and> fl_le (clip (Fin 0) (Fin 1) x) (Fin 1)"
  by (cases x) (auto simp: clip_def isna_def fl_gt_def)

lemma fillna0_clip_unit:
  "fl_le (Fin 0) (fillna0 (clip (Fin 0) (Fin 1) x)) \<and> fl_le (fillna0 (clip (Fin 0) (Fin 1) x)) (Fin 1)"
  by (cases x) (auto simp: clip_def isna_def fl_gt_def fillna0_def)

lemma row_min_le: "fl_gt s (Fin 0) \<Longrightarrow> fl_le (row_min c s) s \<and> row_min c s \<noteq> NaN"
  by (cases s; cases c) (auto simp: row_min_def isna_def fl_gt_def)

lemma fillna0_id: "x \<noteq> NaN \<Longrightarrow> fillna0 x = x"
  by (simp add: fillna0_def isna_def)

lemma fl_gt_not_nan: "fl_gt s (Fin 0) \<Longrightarrow> s \<noteq> NaN"
  by (cases s) (auto simp: fl_gt_def)

lemma fillna0_not_nan: "\<not> isna (fillna0 x)"
  by (simp add: fillna0_def isna_def)

lemma cleaned_clean_row:
  assumes "fl_gt (sessions r) (Fin 0)"
  shows "cleaned writes_through (clean_row writes_through r)"
proof (cases writes_through)
  case True
  have s: "fillna0 (sessions r) = sessions r"
    using assms by (simp add: fillna0_id fl_gt_not_nan)
  have c: "fillna0 (row_min (conversions r) (sessions r)) = row_min (conversions r) (sessions r)"
    using row_min_le[OF assms] by (simp add: fillna0_id)
  show ?thesis
    unfolding cleaned_def clean_row_def
    using True assms row_min_le[OF assms, of "conversions r"] fillna0_clip_unit[of "bounce_rate r"]
    by (simp add: s c fillna0_not_nan)
next
  case False
  show ?thesis
    unfolding cleaned_def clean_row_def
    using False assms row_min_le[OF assms, of "conversions r"] clip_unit[of "bounce_rate r"]
    by auto
qed

lemma cleaned_clean_data: "r \<in> set (clean_data writes_through tb) \<Longrightarrow> cleaned writes_through r"
  by (auto simp: clean_data_rows remove_zero_sessions_def cleaned_clean_row)

lemma clip_id: "fl_le (Fin 0) x \<Longrightarrow> fl_le x (Fin 1) \<Longrightarrow> clip (Fin 0) (Fin 1) x = x"
  by (cases x) (auto simp: clip_def isna_def fl_gt_def)

lemma clip_nan: "isna x \<Longrightarrow> clip (Fin 0) (Fin 1) x = x"
  by (simp add: clip_def)

lemma row_min_id: "fl_le c s \<Longrightarrow> row_min c s = c"
  by (cases s; cases c) (auto simp: row_min_def isna_def)

lemma fl_le_not_nan: "fl_le x y \<Longrightarrow> x \<noteq> NaN \<and> y \<noteq> NaN"
  by (cases x; cases y) auto

lemma clean_row_cleaned:
  assumes "cleaned writes_through r"
  shows "clean_row writes_through r = r"
proof (cases writes_through)
  case True
  have b: "clip (Fin 0) (Fin 1) (bounce_rate r) = bounce_rate r" "bounce_rate r \<noteq> NaN"
    using assms True fl_le_not_nan[of "Fin 0" "bounce_rate r"] by (auto simp: cleaned_def clip_id)
  have c: "row_min (conversions r) (sessions r) = conversions r" "conversions r \<noteq> NaN"
    "sessions r \<noteq> NaN"
    using assms fl_le_not_nan[of "conversions r" "sessions r"]
    by (auto simp: cleaned_def row_min_id)
  have u: "users r \<noteq> NaN" "avg_session_duration r \<noteq> NaN"
    using assms True by (auto simp: cleaned_def isna_def)
  show ?thesis
    using True by (simp add: clean_row_def b c u fillna0_id)
next
  case False
  have b: "clip (Fin 0) (Fin 1) (bounce_rate r) = bounce_rate r"
    using assms False by (auto simp: cleaned_def clip_id clip_nan)
  have c: "row_min (conversions r) (sessions r) = conversions r"
    using assms by (auto simp: cleaned_def row_min_id)
  show ?thesis
    using False by (simp add: clean_row_def b c)
qed

lemma clean_data_cleaned:
  assumes "\<forall>r\<in>set tb. cleaned writes_through r"
  shows "clean_data writes_through tb = drop_duplicates tb"
proof -
  have c: "\<forall>r\<in>set (drop_duplicates tb). cleaned writes_through r"
    using assms by (simp add: set_drop_duplicates)
  then have "remove_zero_sessions (drop_duplicates tb) = drop_duplicates tb"
    unfolding remove_zero_sessions_def by (simp add: cleaned_def)
  moreover have "map (clean_row writes_through) (drop_duplicates tb) = drop_duplicates tb"
    using c by (intro map_idI) (simp add: clean_row_cleaned)
  ultimately show ?thesis by (simp add: clean_data_rows)
qed

lemma clean_data_twice:
  "clean_data writes_through (clean_data writes_through tb) =
   drop_duplicates (clean_data writes_through tb)"
  by (rule clean_data_cleaned) (simp add: cleaned_clean_data)

lemma clean_data_thrice:
  "clean_data writes_through (clean_data writes_through (clean_data writes_through tb)) =
   clean_data writes_through (clean_data writes_through tb)"
proof -
  have "clean_data writes_through (clean_data writes_through (clean_data writes_through tb)) =
      drop_duplicates (clean_data writes_through (clean_data writes_through tb))"
    by (rule clean_data_twice)
  also have "\<dots> = clean_data writes_through (clean_data writes_through tb)"
    by (simp add: clean_data_twice[of writes_through tb] drop_duplicates_distinct
        distinct_drop_duplicates)
  finally show ?thesis .
qed

lemma fill_sessions_pos:
  "\<forall>r\<in>set tb. fl_gt (sessions r) (Fin 0) \<Longrightarrow> fill_sessions writes_through tb = tb"
  unfolding fill_sessions_def any_filter
  by (auto simp: isna_def dest: fl_gt_not_nan)

lemma remove_zero_sessions_filter_notna:
  "remove_zero_sessions (drop_duplicates (filter (\<lambda>r. \<not> isna (sessions r)) tb)) =
   remove_zero_sessions (drop_duplicates tb)"
  unfolding remove_zero_sessions_def drop_duplicates_def
  by (rule filter_drop_duplicates_from_filter) (auto simp: isna_def dest: fl_gt_not_nan)

text \<open>
  What the cleaned rows satisfy. Where the in-place fill reaches the frame, every row
  has a bounce rate between 0 and 1; in general the bounce rate may also be null.
\<close>

lemma clean_data_invariants_write_through:
  "\<forall>r\<in>set (clean_data True tb).
     fl_le (Fin 0) (bounce_rate r) \<and> fl_le (bounce_rate r) (Fin 1) \<and>
     fl_le (conversions r) (sessions r) \<and> fl_gt (sessions r) (Fin 0)"
  using cleaned_clean_data[of _ True tb] by (auto simp: cleaned_def)

lemma clean_data_invariants_any:
  "\<forall>r\<in>set (clean_data writes_through tb).
     (isna (bounce_rate r) \<or> fl_le (Fin 0) (bounce_rate r) \<and> fl_le (bounce_rate r) (Fin 1)) \<and>
     fl_le (conversions r) (sessions r) \<and> fl_gt (sessions r) (Fin 0)"
proof
  fix r assume "r \<in> set (clean_data writes_through tb)"
  then have "cleaned writes_through r" by (rule cleaned_clean_data)
  then show "(isna (bounce_rate r) \<or> fl_le (Fin 0) (bounce_rate r) \<and> fl_le (bounce_rate r) (Fin 1)) \<and>
     fl_le (conversions r) (sessions r) \<and> fl_gt (sessions r) (Fin 0)"
    by (cases writes_through) (auto simp: cleaned_def)
qed

subsection \<open>Claims about the cleaner\<close>

text \<open>
  Claim C1 does not hold of the code where the in-place fill does not reach the frame
  (pandas from 3.0 on). A record with 100 sessions and an empty bounce rate cell passes
  the filter, \<open>clip\<close> leaves the NaN, the fill changes nothing, and the cleaned row
  has the bounce rate NaN, which is not between 0 and 1. Where the fill writes through,
  the same record gets the bounce rate 0.
\<close>

theorem clean_data_keeps_null_bounce_rate:
  "clean_data False [null_bounce_row] = [null_bounce_row\<lparr>conversions := Fin 100\<rparr>] \<and>
   map bounce_rate (clean_data False [null_bounce_row]) = [NaN] \<and>
   \<not> fl_le (Fin 0) NaN \<and> \<not> fl_le NaN (Fin 1) \<and>
   map bounce_rate (clean_data True [null_bounce_row]) = [Fin 0]"
  by code_simp

text \<open>
  Claim C4 does not hold as stated. Two records that differ only in their out-of-range
  bounce rates (1.5 and 2) are both clamped to 1: the cleaned table holds the same row
  twice, and a second run removes one of them and reports one duplicate, whether the
  in-place fill writes through or not.
\<close>

theorem clean_data_not_idempotent:
  "clean_data True (clean_data True dup_table) \<noteq> clean_data True dup_table \<and>
   clean_data True dup_table = [cleaned_sample_row, cleaned_sample_row] \<and>
   clean_data True (clean_data True dup_table) = [cleaned_sample_row] \<and>
   removed_duplicates (clean_data True dup_table) = 1 \<and>
   clean_data False (clean_data False dup_table) \<noteq> clean_data False dup_table \<and>
   clean_data False dup_table = [cleaned_sample_row, cleaned_sample_row] \<and>
   clean_data False (clean_data False dup_table) = [cleaned_sample_row] \<and>
   removed_duplicates (clean_data False dup_table) = 1"
  by code_simp

text \<open>
  Claim C4, amended. A second run of the cleaner does nothing but drop the duplicate
  rows that the first run created: \<open>clean (clean T) = drop_duplicates (clean T)\<close>. It
  returns the cleaned table itself, and reports no duplicate, when the cleaned table has
  no two equal rows; and from the second run on the cleaner is idempotent.
\<close>

theorem clean_data_second_run:
  "clean_data writes_through (clean_data writes_through tb) =
     drop_duplicates (clean_data writes_through tb) \<and>
   (distinct (clean_data writes_through tb) \<longrightarrow>
      clean_data writes_through (clean_data writes_through tb) = clean_data writes_through tb \<and>
      removed_duplicates (clean_data writes_through tb) = 0) \<and>
   clean_data writes_through (clean_data writes_through (clean_data writes_through tb)) =
     clean_data writes_through (clean_data writes_through tb)"
proof (intro conjI impI)
  show "clean_data writes_through (clean_data writes_through tb) =
     drop_duplicates (clean_data writes_through tb)"
    by (rule clean_data_twice)
  show "clean_data writes_through (clean_data writes_through (clean_data writes_through tb)) =
     clean_data writes_through (clean_data writes_through tb)"
    by (rule clean_data_thrice)
next
  assume d: "distinct (clean_data writes_through tb)"
  show "clean_data writes_through (clean_data writes_through tb) = clean_data writes_through tb"
    by (simp add: clean_data_twice drop_duplicates_distinct[OF d])
  show "removed_duplicates (clean_data writes_through tb) = 0"
    by (simp add: removed_duplicates_def drop_duplicates_distinct[OF d])
qed

text \<open>
  The cleaned table of the one sample record has no duplicates, and is stable, with and
  without the fill.
\<close>

theorem clean_data_second_run_witness:
  "distinct (clean_data True [sample_row]) \<and>
   clean_data True (clean_data True [sample_row]) = clean_data True [sample_row] \<and>
   removed_duplicates (clean_data True [sample_row]) = 0 \<and>
   distinct (clean_data False [null_bounce_row]) \<and>
   clean_data False (clean_data False [null_bounce_row]) = clean_data False [null_bounce_row] \<and>
   removed_duplicates (clean_data False [null_bounce_row]) = 0"
proof -
  have d: "distinct (clean_data True [sample_row])" by code_simp
  have e: "distinct (clean_data False [null_bounce_row])" by code_simp
  from clean_data_second_run[of True "[sample_row]"]
    clean_data_second_run[of False "[null_bounce_row]"] d e
  show ?thesis by blast
qed

text \<open>
  Claim C10. The cleaner drops every row whose sessions cell is null: cleaning the table
  without these rows gives the same result, no row that passes the \<open>sessions > 0\<close>
  filter has a null sessions cell, so that the filling step leaves the sessions column as
  it is, and no row of the cleaned table has null or 0 sessions. All of this holds
  whether the in-place fill writes through or not.
\<close>

theorem null_sessions_dropped:
  "clean_data writes_through (filter (\<lambda>r. \<not> isna (sessions r)) tb) = clean_data writes_through tb \<and>
   (\<forall>r\<in>set (remove_zero_sessions (drop_duplicates tb)). \<not> isna (sessions r)) \<and>
   fill_sessions writes_through
       (cap_conversions (clip_bounce_rate (remove_zero_sessions (drop_duplicates tb)))) =
     cap_conversions (clip_bounce_rate (remove_zero_sessions (drop_duplicates tb))) \<and>
   (\<forall>r\<in>set (clean_data writes_through tb). \<not> isna (sessions r) \<and> sessions r \<noteq> Fin 0)"
proof (intro conjI)
  show "clean_data writes_through (filter (\<lambda>r. \<not> isna (sessions r)) tb) =
      clean_data writes_through tb"
    by (simp add: clean_data_def remove_zero_sessions_filter_notna)
  show "\<forall>r\<in>set (remove_zero_sessions (drop_duplicates tb)). \<not> isna (sessions r)"
    by (auto simp: remove_zero_sessions_def isna_def dest: fl_gt_not_nan)
  show "fill_sessions writes_through
       (cap_conversions (clip_bounce_rate (remove_zero_sessions (drop_duplicates tb)))) =
     cap_conversions (clip_bounce_rate (remove_zero_sessions (drop_duplicates tb)))"
    by (rule fill_sessions_pos)
      (auto simp: cap_conversions_def clip_bounce_rate_def remove_zero_sessions_def)
  show "\<forall>r\<in>set (clean_data writes_through tb). \<not> isna (sessions r) \<and> sessions r \<noteq> Fin 0"
  proof
    fix r assume "r \<in> set (clean_data writes_through tb)"
    then have "fl_gt (sessions r) (Fin 0)" using cleaned_clean_data by (simp add: cleaned_def)
    then show "\<not> isna (sessions r) \<and> sessions r \<noteq> Fin 0"
      by (cases "sessions r") (auto simp: fl_gt_def isna_def)
  qed
qed

text \<open>A table whose first record has a null sessions cell is cleaned as if it were absent.\<close>

theorem null_sessions_dropped_witness:
  "clean_data True null_sessions_table = clean_data True [sample_row] \<and>
   cleaned_sample_row \<in> set (clean_data True null_sessions_table) \<and>
   \<not> isna (sessions cleaned_sample_row) \<and> sessions cleaned_sample_row \<noteq> Fin 0 \<and>
   sample_row \<in> set (remove_zero_sessions (drop_duplicates null_sessions_table)) \<and>
   \<not> isna (sessions sample_row)"
proof -
  have f: "filter (\<lambda>r. \<not> isna (sessions r)) null_sessions_table = [sample_row]" by code_simp
  have m: "cleaned_sample_row \<in> set (clean_data True null_sessions_table)" by code_simp
  have n: "sample_row \<in> set (remove_zero_sessions (drop_duplicates null_sessions_table))"
    by code_simp
  from null_sessions_dropped[of True null_sessions_table] f m n show ?thesis by auto
qed

section \<open>Properties of the aggregators\<close>

subsection \<open>Division by zero\<close>

lemma fl_div_zero: "fl_div x (Fin 0) \<in> {NaN, PInf, NInf}"
  by (cases x) (auto simp: inf_signed_def)

lemma fl_mul_100: "y \<in> {NaN, PInf, NInf} \<Longrightarrow> fl_mul y (Fin 100) \<in> {NaN, PInf, NInf}"
  by (auto simp: inf_signed_def)

lemma first_missing_None: "set names \<subseteq> set (columns d) \<Longrightarrow> first_missing names d = None"
  by (induction names) auto

text \<open>
  A group whose sessions sum to 0 has a conversion rate that is NaN or an infinity, in
  the page aggregates and in the device and country aggregates alike.
\<close>

lemma rate_by_zero: "fl_mul (fl_div x (Fin 0)) (Fin 100) \<in> {NaN, PInf, NInf}"
  by (rule fl_mul_100) (rule fl_div_zero)

lemma page_rate_unguarded:
  "\<forall>p\<in>set (score_pages aggs). ps_sessions p = Fin 0 \<longrightarrow> conversion_rate p \<in> {NaN, PInf, NInf}"
proof (intro ballI impI)
  fix p assume "p \<in> set (score_pages aggs)" "ps_sessions p = Fin 0"
  then obtain a where "conversion_rate p = page_conversion_rate a" "ps_sessions a = Fin 0"
    by (auto simp: score_pages_def Let_def)
  then show "conversion_rate p \<in> {NaN, PInf, NInf}"
    using rate_by_zero[of "ps_conversions a"] by (simp add: page_conversion_rate_def)
qed

lemma segment_rate_unguarded:
  "\<forall>p\<in>set (analyze_segment key tb). seg_sessions p = Fin 0 \<longrightarrow>
     seg_conversion_rate p \<in> {NaN, PInf, NInf}"
proof (intro ballI impI)
  fix p assume "p \<in> set (analyze_segment key tb)" "seg_sessions p = Fin 0"
  then obtain c where "seg_conversion_rate p = fl_mul (fl_div c (Fin 0)) (Fin 100)"
    by (auto simp: analyze_segment_def Let_def)
  then show "seg_conversion_rate p \<in> {NaN, PInf, NInf}"
    using rate_by_zero[of c] by simp
qed

text \<open>
  Claim C2 does not hold of the code. For a table whose only record has no sessions and
  no conversions, the page, device and country aggregates have the conversion rate NaN
  (an infinity when there are conversions), while \<open>calculate_kpis\<close>, which guards the
  division, gives 0.
\<close>

theorem aggregates_unguarded_division:
  "map conversion_rate (analyze_page_performance [zero_row]) = [NaN] \<and>
   map seg_conversion_rate (analyze_device_performance [zero_row]) = [NaN] \<and>
   map seg_conversion_rate (analyze_country_performance [zero_row]) = [NaN] \<and>
   map seg_conversion_rate (analyze_device_performance [zero_row\<lparr>conversions := Fin 3\<rparr>]) = [PInf] \<and>
   kpi_conversion_rate (calculate_kpis [zero_row]) = Fin 0"
  by code_simp

lemma rate_by_zero_value:
  "fl_mul (fl_div x (Fin 0)) (Fin 100) =
     (if fl_gt x (Fin 0) then PInf else if fl_lt x (Fin 0) then NInf else NaN)"
  by (cases x) (auto simp: fl_gt_def inf_signed_def)

text \<open>
  Claim C9. When the sessions of a frame with the required columns sum to 0,
  \<open>generate_summary_stats\<close> divides the sum of the conversions by that 0 with no
  guard. Unless it has already raised on the date range, the overall conversion rate it
  computes is that quotient times 100: an infinity with the sign of the conversions, or
  NaN when they sum to 0 as well, and never 0; on a frame with no record the division
  itself raises. \<open>calculate_kpis\<close> guards the division and gives 0 for the same rows.
\<close>

theorem summary_rate_unguarded:
  assumes "set required_columns \<subseteq> set (columns d)"
    and "nansum (map sessions (rows d)) = Fin 0"
  shows "(if date_range_raises (map date (rows d)) then generate_summary_stats d = Inl TypeError
          else if rows d = [] then generate_summary_stats d = Inl ZeroDivisionError
          else \<exists>st. generate_summary_stats d = Inr st \<and>
                 st_total_sessions st = Fin 0 \<and>
                 st_total_conversions st = nansum (map conversions (rows d)) \<and>
                 st_overall_conversion_rate st =
                   fl_mul (fl_div (st_total_conversions st) (st_total_sessions st)) (Fin 100) \<and>
                 st_overall_conversion_rate st =
                   (if fl_gt (st_total_conversions st) (Fin 0) then PInf
                    else if fl_lt (st_total_conversions st) (Fin 0) then NInf else NaN) \<and>
                 st_overall_conversion_rate st \<noteq> Fin 0) \<and>
         kpi_conversion_rate (calculate_kpis (rows d)) = Fin 0"
proof -
  have fd: "first_missing [''date''] d = None"
    by (rule first_missing_None) (use assms(1) in \<open>auto simp: required_columns_def\<close>)
  have fm: "first_missing [''sessions'', ''users'', ''conversions'', ''bounce_rate'',
          ''avg_session_duration''] d = None"
    by (rule first_missing_None) (use assms(1) in \<open>auto simp: required_columns_def\<close>)
  have k: "kpi_conversion_rate (calculate_kpis (rows d)) = Fin 0"
    by (simp add: calculate_kpis_def Let_def assms(2) fl_gt_def)
  show ?thesis
  proof (cases "date_range_raises (map date (rows d))")
    case True
    then show ?thesis using fd k by (simp add: generate_summary_stats_def date_range_def)
  next
    case no_raise: False
    show ?thesis
    proof (cases "rows d = []")
      case True
      then show ?thesis
        using fd fm k no_raise
        by (simp add: generate_summary_stats_def date_range_def is_numeric_dtype_def)
    next
      case False
      let ?c = "nansum (map conversions (rows d))"
      from fd fm no_raise False obtain st where st: "generate_summary_stats d = Inr st"
        and ts: "st_total_sessions st = Fin 0" and tc: "st_total_conversions st = ?c"
        and r: "st_overall_conversion_rate st = fl_mul (fl_div ?c (Fin 0)) (Fin 100)"
        by (simp add: generate_summary_stats_def date_range_def is_numeric_dtype_def assms(2))
      have v: "st_overall_conversion_rate st =
          (if fl_gt ?c (Fin 0) then PInf else if fl_lt ?c (Fin 0) then NInf else NaN)"
        unfolding r by (rule rate_by_zero_value)
      then have "st_overall_conversion_rate st \<noteq> Fin 0" by (simp split: if_splits)
      then show ?thesis using st ts tc r v k no_raise False by auto
    qed
  qed
qed

text \<open>
  The frame of the record with no sessions and no conversions, where the rate is NaN;
  the same record with 3 conversions, where it is an infinity; the frame with no record,
  where the division raises; and two records with no sessions, a date that does not
  parse and an empty date cell, where the date range raises.
\<close>

theorem summary_rate_unguarded_witness:
  "set required_columns \<subseteq> set (columns zero_frame) \<and>
   nansum (map sessions (rows zero_frame)) = Fin 0 \<and>
   (\<exists>st. generate_summary_stats zero_frame = Inr st \<and> st_overall_conversion_rate st = NaN) \<and>
   kpi_conversion_rate (calculate_kpis (rows zero_frame)) = Fin 0 \<and>
   (\<exists>st. generate_summary_stats converting_frame = Inr st \<and>
      st_total_conversions st = Fin 3 \<and> st_overall_conversion_rate st = PInf) \<and>
   kpi_conversion_rate (calculate_kpis (rows converting_frame)) = Fin 0 \<and>
   generate_summary_stats empty_frame = Inl ZeroDivisionError \<and>
   generate_summary_stats mixed_dates_frame = Inl TypeError"
proof -
  have c: "set required_columns \<subseteq> set (columns zero_frame)"
    "set required_columns \<subseteq> set (columns converting_frame)"
    "set required_columns \<subseteq> set (columns mixed_dates_frame)"
    "set required_columns \<subseteq> set (columns empty_frame)"
    by (simp_all add: zero_frame_def converting_frame_def mixed_dates_frame_def empty_frame_def)
  have z: "nansum (map sessions (rows zero_frame)) = Fin 0"
    "nansum (map sessions (rows converting_frame)) = Fin 0"
    "nansum (map sessions (rows mixed_dates_frame)) = Fin 0"
    "nansum (map sessions (rows empty_frame)) = Fin 0"
    by code_simp+
  have n: "\<not> date_range_raises (map date (rows zero_frame))" "rows zero_frame \<noteq> []"
    "\<not> date_range_raises (map date (rows converting_frame))" "rows converting_frame \<noteq> []"
    "date_range_raises (map date (rows mixed_dates_frame))"
    "\<not> date_range_raises (map date (rows empty_frame))" "rows empty_frame = []"
    by code_simp+
  have v: "nansum (map conversions (rows zero_frame)) = Fin 0"
    "nansum (map conversions (rows converting_frame)) = Fin 3"
    by code_simp+
  from summary_rate_unguarded[OF c(1) z(1)] n(1,2) v(1)
  have a: "(\<exists>st. generate_summary_stats zero_frame = Inr st \<and> st_overall_conversion_rate st = NaN) \<and>
     kpi_conversion_rate (calculate_kpis (rows zero_frame)) = Fin 0"
    by (auto simp: fl_gt_def)
  from summary_rate_unguarded[OF c(2) z(2)] n(3,4) v(2)
  have b: "(\<exists>st. generate_summary_stats converting_frame = Inr st \<and>
      st_total_conversions st = Fin 3 \<and> st_overall_conversion_rate st = PInf) \<and>
     kpi_conversion_rate (calculate_kpis (rows converting_frame)) = Fin 0"
    by (auto simp: fl_gt_def)
  from summary_rate_unguarded[OF c(3) z(3)] n(5)
  have t: "generate_summary_stats mixed_dates_frame = Inl TypeError"
    by simp
  from summary_rate_unguarded[OF c(4) z(4)] n(6,7)
  have e: "generate_summary_stats empty_frame = Inl ZeroDivisionError"
    by simp
  show ?thesis using c(1) z(1) a b e t by blast
qed

subsection \<open>The quality score\<close>

lemma fl_mul_commute: "fl_mul x y = fl_mul y x"
  by (cases x; cases y) (simp_all add: mult.commute)

lemma page_quality_score_spec: "page_quality_score b cr d dmax = spec_quality_score b cr d dmax"
  by (simp add: page_quality_score_def spec_quality_score_def fl_mul_commute)

lemma is_finite_iff: "is_finite x = (\<exists>a. x = Fin a)"
  by (cases x) auto

lemma foldl_fl_max_finite:
  assumes "\<forall>x\<in>set ys. is_finite x"
  shows "\<exists>m. foldl fl_max (Fin y) ys = Fin m \<and> y \<le> m \<and> (\<forall>x\<in>set ys. fl_le x (Fin m)) \<and>
           (Fin m = Fin y \<or> Fin m \<in> set ys)"
  using assms
proof (induction ys arbitrary: y)
  case Nil
  then show ?case by simp
next
  case (Cons z zs)
  then obtain c where z: "z = Fin c" by (auto simp: is_finite_iff)
  have step: "fl_max (Fin y) (Fin c) = Fin (max y c)"
    by (auto simp: fl_max_def max_def)
  from Cons.IH[of "max y c"] Cons.prems
  obtain m where m: "foldl fl_max (Fin (max y c)) zs = Fin m" "max y c \<le> m"
    "\<forall>x\<in>set zs. fl_le x (Fin m)" "Fin m = Fin (max y c) \<or> Fin m \<in> set zs"
    by auto
  have "foldl fl_max (Fin y) (z # zs) = Fin m" by (simp add: z step m(1))
  moreover have "y \<le> m" "c \<le> m" using m(2) by simp_all
  moreover have "Fin m = Fin y \<or> Fin m \<in> set (z # zs)"
    using m(4) by (auto simp: z max_def split: if_splits)
  ultimately show ?case using m(3) by (auto simp: z)
qed

lemma dropna_finite: "\<forall>x\<in>set xs. is_finite x \<Longrightarrow> dropna xs = xs"
  by (induction xs) (auto simp: dropna_def isna_def)

lemma nanmax_finite:
  assumes "\<forall>x\<in>set xs. is_finite x" "xs \<noteq> []"
  shows "\<exists>m. nanmax xs = Fin m \<and> (\<forall>x\<in>set xs. fl_le x (Fin m)) \<and> Fin m \<in> set xs"
proof -
  obtain y ys where xs: "xs = y # ys" using assms(2) by (cases xs) auto
  obtain a where y: "y = Fin a" using assms(1) xs by (auto simp: is_finite_iff)
  have "\<forall>x\<in>set ys. is_finite x" using assms(1) xs by simp
  from foldl_fl_max_finite[OF this, of a]
  obtain m where "foldl fl_max (Fin a) ys = Fin m" "a \<le> m" "\<forall>x\<in>set ys. fl_le x (Fin m)"
    "Fin m = Fin a \<or> Fin m \<in> set ys" by blast
  moreover have "dropna xs = Fin a # ys"
    using dropna_finite[OF assms(1)] by (simp add: xs y)
  ultimately show ?thesis
    by (auto simp: nanmax_def xs y)
qed

lemma score_bounds:
  fixes b c s d m :: rat
  assumes "0 \<le> b" "b \<le> 1" "0 \<le> c" "c \<le> s" "0 < s" "0 \<le> d" "d \<le> m" "0 < m"
  shows "0 \<le> ((1 - b) * (3 / 10) + c / s * 100 / 100 * (4 / 10) + d / m * (3 / 10)) * 100"
    and "((1 - b) * (3 / 10) + c / s * 100 / 100 * (4 / 10) + d / m * (3 / 10)) * 100 \<le> 100"
proof -
  define x where "x = c / s"
  define y where "y = d / m"
  have x: "0 \<le> x" "x \<le> 1" using assms by (simp_all add: x_def)
  have y: "0 \<le> y" "y \<le> 1" using assms by (simp_all add: y_def)
  have e: "((1 - b) * (3 / 10) + c / s * 100 / 100 * (4 / 10) + d / m * (3 / 10)) * 100
        = 30 * (1 - b) + 40 * x + 30 * y"
    by (simp add: x_def y_def field_simps)
  show "0 \<le> ((1 - b) * (3 / 10) + c / s * 100 / 100 * (4 / 10) + d / m * (3 / 10)) * 100"
    unfolding e using x y assms(1,2) by simp
  show "((1 - b) * (3 / 10) + c / s * 100 / 100 * (4 / 10) + d / m * (3 / 10)) * 100 \<le> 100"
    unfolding e using x y assms(1,2) by simp
qed

lemma fl_le_between: "fl_le (Fin a) x \<Longrightarrow> fl_le x (Fin c) \<Longrightarrow> \<exists>b. x = Fin b \<and> a \<le> b \<and> b \<le> c"
  by (cases x) auto

lemma valid_page_score_range:
  assumes v: "valid_page_agg a"
    and d: "fl_le (ps_avg_session_duration a) (Fin m)" and m: "0 < m"
  shows "fl_le (Fin 0) (page_quality_score (ps_bounce_rate a) (page_conversion_rate a)
            (ps_avg_session_duration a) (Fin m)) \<and>
         fl_le (page_quality_score (ps_bounce_rate a) (page_conversion_rate a)
            (ps_avg_session_duration a) (Fin m)) (Fin 100)"
proof -
  obtain s where s: "ps_sessions a = Fin s" "0 < s"
    using v by (auto simp: valid_page_agg_def is_finite_iff)
  obtain c where c: "ps_conversions a = Fin c" "0 \<le> c" "c \<le> s"
    using v fl_le_between[of 0 "ps_conversions a" s] by (auto simp: valid_page_agg_def s)
  obtain b where b: "ps_bounce_rate a = Fin b" "0 \<le> b" "b \<le> 1"
    using v fl_le_between[of 0 "ps_bounce_rate a" 1] by (auto simp: valid_page_agg_def)
  obtain t where t: "ps_avg_session_duration a = Fin t" "0 \<le> t" "t \<le> m"
    using v d fl_le_between[of 0 "ps_avg_session_duration a" m] by (auto simp: valid_page_agg_def)
  have q: "page_quality_score (ps_bounce_rate a) (page_conversion_rate a)
            (ps_avg_session_duration a) (Fin m)
        = Fin (((1 - b) * (3 / 10) + c / s * 100 / 100 * (4 / 10) + t / m * (3 / 10)) * 100)"
    using s(2) m
    by (simp add: page_quality_score_def page_conversion_rate_def s(1) c(1) b(1) t(1) fl_sub_def)
  show ?thesis
    unfolding q using score_bounds[OF b(2,3) c(2,3) s(2) t(2,3) m] by simp
qed

text \<open>
  Claim C5 does not hold as stated: the score is not confined to 0..100. A page with 10
  sessions and 20 conversions, as the raw data may hold, has the conversion rate 200 and
  the quality score 140.
\<close>

theorem quality_score_above_100:
  "map quality_score (score_pages [overcounted_page_agg]) = [Fin 140] \<and>
   \<not> fl_le (Fin 140) (Fin 100) \<and>
   group_pages [sample_row\<lparr>sessions := Fin 10, conversions := Fin 20, bounce_rate := Fin 0\<rparr>] =
     [overcounted_page_agg]"
  by code_simp

text \<open>
  Claim C5, amended. The quality score of every page equals the formula of the
  specification, with the maximum taken over the pages at hand. It lies between 0 and
  100 when every page aggregate meets the invariants of the data model and some page has
  a positive duration.
\<close>

theorem quality_score_formula_and_range:
  "(\<forall>p\<in>set (score_pages aggs).
      quality_score p =
        spec_quality_score (ps_bounce_rate p) (conversion_rate p) (ps_avg_session_duration p)
          (nanmax (map ps_avg_session_duration aggs))) \<and>
   ((\<forall>a\<in>set aggs. valid_page_agg a) \<and> (\<exists>a\<in>set aggs. fl_lt (Fin 0) (ps_avg_session_duration a)) \<longrightarrow>
    (\<forall>p\<in>set (score_pages aggs). fl_le (Fin 0) (quality_score p) \<and> fl_le (quality_score p) (Fin 100)))"
proof (intro conjI impI)
  show "\<forall>p\<in>set (score_pages aggs).
      quality_score p =
        spec_quality_score (ps_bounce_rate p) (conversion_rate p) (ps_avg_session_duration p)
          (nanmax (map ps_avg_session_duration aggs))"
    by (auto simp: score_pages_def Let_def page_quality_score_spec)
next
  assume h: "(\<forall>a\<in>set aggs. valid_page_agg a) \<and> (\<exists>a\<in>set aggs. fl_lt (Fin 0) (ps_avg_session_duration a))"
  then obtain a0 where a0: "a0 \<in> set aggs" "fl_lt (Fin 0) (ps_avg_session_duration a0)" by blast
  have fin: "\<forall>x\<in>set (map ps_avg_session_duration aggs). is_finite x"
    using h by (auto simp: valid_page_agg_def)
  have ne: "map ps_avg_session_duration aggs \<noteq> []" using a0(1) by auto
  from nanmax_finite[OF fin ne]
  obtain m where m: "nanmax (map ps_avg_session_duration aggs) = Fin m"
    "\<forall>x\<in>set (map ps_avg_session_duration aggs). fl_le x (Fin m)" by blast
  have "fl_le (ps_avg_session_duration a0) (Fin m)" using m(2) a0(1) by simp
  then have mpos: "0 < m" using a0(2) by (cases "ps_avg_session_duration a0") auto
  show "\<forall>p\<in>set (score_pages aggs). fl_le (Fin 0) (quality_score p) \<and> fl_le (quality_score p) (Fin 100)"
  proof
    fix p assume "p \<in> set (score_pages aggs)"
    then obtain a where a: "a \<in> set aggs"
      and q: "quality_score p = page_quality_score (ps_bounce_rate a) (page_conversion_rate a)
                (ps_avg_session_duration a) (Fin m)"
      by (auto simp: score_pages_def Let_def m(1))
    have "valid_page_agg a" using h a by blast
    moreover have "fl_le (ps_avg_session_duration a) (Fin m)" using m(2) a by simp
    ultimately show "fl_le (Fin 0) (quality_score p) \<and> fl_le (quality_score p) (Fin 100)"
      unfolding q using mpos by (rule valid_page_score_range)
  qed
qed

text \<open>A page with 100 sessions, 5 conversions and bounce rate 0.5 scores 47.\<close>

theorem quality_score_formula_and_range_witness:
  "valid_page_agg sample_page_agg \<and> fl_lt (Fin 0) (ps_avg_session_duration sample_page_agg) \<and>
   map quality_score (score_pages [sample_page_agg]) = [Fin 47] \<and>
   fl_le (Fin 0) (quality_score (hd (score_pages [sample_page_agg]))) \<and>
   fl_le (quality_score (hd (score_pages [sample_page_agg]))) (Fin 100) \<and>
   quality_score (hd (score_pages [sample_page_agg])) =
     spec_quality_score (Fin (1 / 2)) (Fin 5) (Fin 60) (Fin 60)"
proof -
  have v: "valid_page_agg sample_page_agg" by code_simp
  have p: "fl_lt (Fin 0) (ps_avg_session_duration sample_page_agg)" by code_simp
  have q: "map quality_score (score_pages [sample_page_agg]) = [Fin 47]" by code_simp
  have m: "hd (score_pages [sample_page_agg]) \<in> set (score_pages [sample_page_agg])" by code_simp
  have s: "quality_score (hd (score_pages [sample_page_agg])) =
     spec_quality_score (Fin (1 / 2)) (Fin 5) (Fin 60) (Fin 60)"
    by code_simp
  from quality_score_formula_and_range[of "[sample_page_agg]"] v p m
  have "fl_le (Fin 0) (quality_score (hd (score_pages [sample_page_agg]))) \<and>
        fl_le (quality_score (hd (score_pages [sample_page_agg]))) (Fin 100)"
    by auto
  then show ?thesis using v p q s by blast
qed

subsection \<open>The categories\<close>

text \<open>
  Every page gets one of the four categories. With a conversion rate and a median that
  are not NaN, a page at or above the median of the sessions is in a high-traffic
  category, and likewise for the conversion rate.
\<close>

lemma categorize_page_cases:
  "categorize_page ms mc s cr \<in>
     {''Star Performers'', ''High Traffic - Low Conversion'', ''Hidden Gems'', ''Needs Attention''}"
  by (simp add: categorize_page_def)

lemma fl_total: "x \<noteq> NaN \<Longrightarrow> y \<noteq> NaN \<Longrightarrow> fl_ge x y \<or> fl_lt x y"
  by (cases x; cases y) (auto simp: fl_ge_def)

lemma categorize_page_high_sessions:
  assumes "cr \<noteq> NaN" "mc \<noteq> NaN" "fl_ge s ms"
  shows "categorize_page ms mc s cr \<in> {''Star Performers'', ''High Traffic - Low Conversion''}"
  using fl_total[OF assms(1,2)] assms(3) by (auto simp: categorize_page_def)

lemma categorize_page_high_conversion:
  assumes "s \<noteq> NaN" "ms \<noteq> NaN" "fl_ge cr mc"
  shows "categorize_page ms mc s cr \<in> {''Star Performers'', ''Hidden Gems''}"
  using fl_total[OF assms(1,2)] assms(3) by (auto simp: categorize_page_def)

text \<open>
  Claim C3 does not hold of the code. The only page of the table below has 0 sessions,
  which is the median of the sessions, and yet it is put in \<open>Needs Attention\<close>, a
  low-traffic category: its conversion rate is the NaN of the unguarded division, and
  NaN fails every comparison.
\<close>

theorem categorize_page_nan_tie:
  "map ps_sessions (group_pages [zero_row]) = [Fin 0] \<and>
   nanmedian (map ps_sessions (group_pages [zero_row])) = Fin 0 \<and>
   map category (analyze_page_performance [zero_row]) = [''Needs Attention'']"
  by code_simp

section \<open>Properties of the validator\<close>

subsection \<open>What the steps change\<close>

lemma df_append_issue [simp]: "df (append_issue i v) = df v"
  by (simp add: append_issue_def)

lemma printed_append_issue [simp]: "printed (append_issue i v) = printed v"
  by (simp add: append_issue_def)

lemma issues_append_issue [simp]: "issues (append_issue i v) = issues v @ [i]"
  by (simp add: append_issue_def)

lemma to_datetime_erase:
  "to_datetime parse rs = Some ps \<Longrightarrow> map erase_date ps = map erase_date rs"
proof (induction rs arbitrary: ps)
  case Nil
  then show ?case by simp
next
  case (Cons r rs)
  then show ?case
    by (auto simp: erase_date_def split: option.splits)
qed

lemma dates_parsed_columns: "columns (dates_parsed parse d) = columns d"
  by (simp add: dates_parsed_def split: option.splits)

lemma dates_parsed_erase:
  "map erase_date (rows (dates_parsed parse d)) = map erase_date (rows d)"
  by (simp add: dates_parsed_def to_datetime_erase split: option.splits)

lemma validate_dates_frame:
  "\<exists>r v'. validate_dates parse now v = Done r v' \<and> df v' = dates_parsed parse (df v) \<and>
           printed v' = printed v \<and> (\<exists>more. issues v' = issues v @ more)"
  by (auto simp: validate_dates_def dates_parsed_def Let_def split: option.splits)

lemma check_numeric_column_keeps:
  "df (state_of (check_numeric_column name f v)) = df v \<and>
   printed (state_of (check_numeric_column name f v)) = printed v \<and>
   (\<exists>more. issues (state_of (check_numeric_column name f v)) = issues v @ more)"
  by (simp add: check_numeric_column_def Let_def split: sum.splits)

lemma numeric_loop_keeps:
  "df (state_of (numeric_loop cols all_valid v)) = df v \<and>
   printed (state_of (numeric_loop cols all_valid v)) = printed v \<and>
   (\<exists>more. issues (state_of (numeric_loop cols all_valid v)) = issues v @ more)"
proof (induction cols all_valid v rule: numeric_loop.induct)
  case (1 all_valid v)
  then show ?case by simp
next
  case (2 name f cols all_valid v)
  show ?case
  proof (cases "check_numeric_column name f v")
    case (Raised e v')
    then show ?thesis using check_numeric_column_keeps[of name f v] by simp
  next
    case (Done u v')
    then show ?thesis
      using check_numeric_column_keeps[of name f v] "2.IH"[OF Done] by auto
  qed
qed

lemma keeps_validate_columns: "keeps (validate_columns set_order)"
  by (simp add: keeps_def validate_columns_def Let_def)

lemma keeps_validate_numeric_columns: "keeps validate_numeric_columns"
  by (simp add: keeps_def validate_numeric_columns_def numeric_loop_keeps)

lemma keeps_validate_categorical_columns: "keeps validate_categorical_columns"
  by (simp add: keeps_def validate_categorical_columns_def split: option.splits)

lemma keeps_check_data_quality: "keeps check_data_quality"
  by (simp add: keeps_def check_data_quality_def Let_def split: option.splits)

lemma keeps_summary_step: "keeps summary_step"
  by (simp add: keeps_def summary_step_def split: sum.splits)

lemma keeps_rest_steps: "\<forall>(n, f)\<in>set rest_steps. keeps f"
  by (simp add: rest_steps_def keeps_validate_categorical_columns keeps_check_data_quality
      keeps_summary_step)

lemma run_steps_keeps:
  assumes "\<forall>(n, f)\<in>set sts. keeps f"
  shows "df (state_of (run_steps sts ap v)) = df v \<and>
         (\<exists>more. printed (state_of (run_steps sts ap v)) = printed v @ more) \<and>
         (\<exists>more. issues (state_of (run_steps sts ap v)) = issues v @ more)"
  using assms
proof (induction sts ap v rule: run_steps.induct)
  case (1 ap v)
  then show ?case by simp
next
  case (2 n f sts ap v)
  let ?v = "v\<lparr>printed := printed v @ [n]\<rparr>"
  have "keeps f" using "2.prems" by simp
  then have "df (state_of (f ?v)) = df ?v \<and> printed (state_of (f ?v)) = printed ?v \<and>
      (\<exists>more. issues (state_of (f ?v)) = issues ?v @ more)"
    unfolding keeps_def by blast
  then have k: "df (state_of (f ?v)) = df v" "printed (state_of (f ?v)) = printed v @ [n]"
    "\<exists>more. issues (state_of (f ?v)) = issues v @ more"
    by simp_all
  show ?case
  proof (cases "f ?v")
    case (Raised e v')
    then show ?thesis using k by simp
  next
    case (Done r v')
    have "\<forall>(n, f)\<in>set sts. keeps f" using "2.prems" by simp
    from "2.IH"[OF Done this] k Done show ?thesis by auto
  qed
qed

lemma run_steps_False: "run_steps sts False v = Done r v' \<Longrightarrow> \<not> r"
proof (induction sts "False" v rule: run_steps.induct)
  case (1 v)
  then show ?case by simp
next
  case (2 n f sts v)
  then show ?case by (auto split: result.splits)
qed

lemma clean_frame_keeps:
  "printed (state_of (clean_frame writes_through v)) = printed v \<and> issues (state_of (clean_frame writes_through v)) = issues v"
  by (simp add: clean_frame_def split: option.splits)

text \<open>
  The loop over the six steps, taken apart: the first two steps always return, the frame
  is the one \<open>validate_dates\<close> left, the third header is always printed, and a missing
  column is the first issue and clears \<open>all_passed\<close> for good.
\<close>

lemma run_steps_steps:
  fixes d parse now
  defines "v0 \<equiv> \<lparr>df = d, issues = [], printed = []\<rparr>"
  defines "missing \<equiv> set required_columns - set (columns d)"
  shows "\<exists>v. state_of (run_steps (steps set_order parse now) True v0) = v \<and>
           df v = dates_parsed parse d \<and>
           take 3 (printed v) = [''Column Validation'', ''Date Validation'', ''Numeric Validation''] \<and>
           (missing \<noteq> {} \<longrightarrow> hd (issues v) = MissingColumns (set_order missing) \<and> issues v \<noteq> [] \<and>
              (\<forall>r v'. run_steps (steps set_order parse now) True v0 = Done r v' \<longrightarrow> \<not> r))"
proof -
  let ?h1 = "''Column Validation''" and ?h2 = "''Date Validation''" and ?h3 = "''Numeric Validation''"
  define v1 where "v1 = (if missing \<noteq> {} then append_issue (MissingColumns (set_order missing)) (v0\<lparr>printed := [?h1]\<rparr>)
                         else v0\<lparr>printed := [?h1]\<rparr>)"
  have s1: "validate_columns set_order (v0\<lparr>printed := printed v0 @ [?h1]\<rparr>) = Done (missing = {}) v1"
    by (simp add: validate_columns_def Let_def v1_def v0_def missing_def)
  have v1: "df v1 = d" "printed v1 = [?h1]" "missing \<noteq> {} \<Longrightarrow> issues v1 = [MissingColumns (set_order missing)]"
    "missing = {} \<Longrightarrow> issues v1 = []"
    by (simp_all add: v1_def v0_def append_issue_def)
  obtain r2 v2 where s2: "validate_dates parse now (v1\<lparr>printed := printed v1 @ [?h2]\<rparr>) = Done r2 v2"
    and v2: "df v2 = dates_parsed parse d" "printed v2 = [?h1, ?h2]"
      "\<exists>more. issues v2 = issues v1 @ more"
    using validate_dates_frame[of parse now "v1\<lparr>printed := printed v1 @ [?h2]\<rparr>"] v1(1,2)
    by auto
  define ap2 where "ap2 = (if \<not> r2 then False else if \<not> missing = {} then False else True)"
  define w where "w = v2\<lparr>printed := printed v2 @ [?h3]\<rparr>"
  have st: "steps set_order parse now =
      (?h1, validate_columns set_order) # (?h2, validate_dates parse now) #
      (?h3, validate_numeric_columns) # rest_steps"
    by (simp add: steps_def rest_steps_def)
  have e: "run_steps (steps set_order parse now) True v0 =
      (case validate_numeric_columns w of
         Raised e v' \<Rightarrow> Raised e v'
       | Done r v' \<Rightarrow> run_steps rest_steps (if \<not> r then False else ap2) v')"
    by (simp only: st run_steps.simps s1 s2 result.case ap2_def w_def)
  have k3: "df (state_of (validate_numeric_columns w)) = df w"
    "printed (state_of (validate_numeric_columns w)) = printed w"
    "\<exists>more. issues (state_of (validate_numeric_columns w)) = issues w @ more"
    using keeps_validate_numeric_columns unfolding keeps_def by blast+
  have false: "missing \<noteq> {} \<Longrightarrow> ap2 = False" by (simp add: ap2_def)
  have fin: ?thesis
    if r: "run_steps (steps set_order parse now) True v0 = R"
      and "df (state_of R) = dates_parsed parse d"
      and "\<exists>more. printed (state_of R) = [?h1, ?h2, ?h3] @ more"
      and i: "\<exists>more. issues (state_of R) = issues v1 @ more"
      and n: "\<And>r v'. missing \<noteq> {} \<Longrightarrow> R = Done r v' \<Longrightarrow> \<not> r"
    for R
  proof -
    have p: "take 3 (printed (state_of R)) = [?h1, ?h2, ?h3]"
      using that(3) by auto
    have "hd (issues (state_of R)) = MissingColumns (set_order missing) \<and> issues (state_of R) \<noteq> []"
      if "missing \<noteq> {}"
      using i v1(3)[OF that] by auto
    then show ?thesis
      unfolding r using that(2) p n by blast
  qed
  show ?thesis
  proof (cases "validate_numeric_columns w")
    case (Raised e v')
    then have "run_steps (steps set_order parse now) True v0 = Raised e v'" by (simp add: e)
    moreover have "df v' = dates_parsed parse d" "printed v' = [?h1, ?h2, ?h3]"
      "\<exists>more. issues v' = issues v1 @ more"
      using k3 Raised v2 by (auto simp: w_def)
    ultimately show ?thesis by (intro fin[of "Raised e v'"]) simp_all
  next
    case (Done r3 v3)
    define ap3 where "ap3 = (if \<not> r3 then False else ap2)"
    have e': "run_steps (steps set_order parse now) True v0 = run_steps rest_steps ap3 v3"
      by (simp add: e Done ap3_def)
    have v3: "df v3 = dates_parsed parse d" "printed v3 = [?h1, ?h2, ?h3]"
      "\<exists>more. issues v3 = issues v1 @ more"
      using k3 Done v2 by (auto simp: w_def)
    from run_steps_keeps[OF keeps_rest_steps, of ap3 v3]
    have f: "df (state_of (run_steps rest_steps ap3 v3)) = dates_parsed parse d"
      "\<exists>more. printed (state_of (run_steps rest_steps ap3 v3)) = [?h1, ?h2, ?h3] @ more"
      "\<exists>more. issues (state_of (run_steps rest_steps ap3 v3)) = issues v1 @ more"
      using v3 by auto
    have "ap3 = False" if "missing \<noteq> {}"
      using false[OF that] by (simp add: ap3_def)
    then have "missing \<noteq> {} \<Longrightarrow> run_steps rest_steps ap3 v3 = Done r v' \<Longrightarrow> \<not> r" for r v'
      using run_steps_False[of rest_steps v3 r v'] by simp
    then show ?thesis using f by (intro fin[OF e']) blast+
  qed
qed

text \<open>
  Every step keeps the header. When the loop returns, each of its steps has returned on
  a frame with this header, so that no required column is missing; with a missing column
  the run ends in an exception that nobody catches, and no report is returned.
\<close>

lemma keeps_keeps_columns: "keeps f \<Longrightarrow> keeps_columns f"
  by (simp add: keeps_def keeps_columns_def)

lemma keeps_columns_validate_dates: "keeps_columns (validate_dates parse now)"
  unfolding keeps_columns_def
proof
  fix v
  from validate_dates_frame[of parse now v]
  show "columns (df (state_of (validate_dates parse now v))) = columns (df v)"
    by (auto simp: dates_parsed_columns)
qed

lemma keeps_columns_steps: "\<forall>(n, f)\<in>set (steps set_order parse now). keeps_columns f"
  by (simp add: steps_def keeps_columns_validate_dates keeps_keeps_columns keeps_validate_columns
      keeps_validate_numeric_columns keeps_validate_categorical_columns keeps_check_data_quality
      keeps_summary_step)

lemma run_steps_all_return:
  assumes "run_steps sts ap v = Done r v'" and "\<forall>(n, f)\<in>set sts. keeps_columns f"
    and "(m, g) \<in> set sts"
  shows "\<exists>w ok w'. g w = Done ok w' \<and> columns (df w) = columns (df v)"
  using assms
proof (induction sts ap v rule: run_steps.induct)
  case (1 ap v)
  then show ?case by simp
next
  case (2 n f sts ap v)
  let ?v = "v\<lparr>printed := printed v @ [n]\<rparr>"
  from "2.prems"(1) obtain ok w' where f: "f ?v = Done ok w'"
    and rest: "run_steps sts (if \<not> ok then False else ap) w' = Done r v'"
    by (auto split: result.splits)
  have "keeps_columns f" using "2.prems"(2) by simp
  then have "columns (df (state_of (f ?v))) = columns (df ?v)"
    unfolding keeps_columns_def by blast
  then have c: "columns (df w') = columns (df v)"
    by (simp add: f)
  have cv: "columns (df ?v) = columns (df v)" by simp
  have ks: "\<forall>(n, f)\<in>set sts. keeps_columns f" using "2.prems"(2) by simp
  show ?case
  proof (cases "(m, g) = (n, f)")
    case True
    then show ?thesis using f cv by blast
  next
    case False
    then have "(m, g) \<in> set sts" using "2.prems"(3) by auto
    from "2.IH"[OF f rest ks this] show ?thesis by (simp add: c)
  qed
qed

lemma check_numeric_column_Done:
  "check_numeric_column name f v = Done ok v' \<Longrightarrow> name \<in> set (columns (df v))"
  by (simp add: check_numeric_column_def col_def split: if_splits)

lemma numeric_loop_Done:
  "numeric_loop cols all_valid v = Done r v' \<Longrightarrow> fst ` set cols \<subseteq> set (columns (df v))"
proof (induction cols all_valid v rule: numeric_loop.induct)
  case (1 all_valid v)
  then show ?case by simp
next
  case (2 name f cols all_valid v)
  from "2.prems" obtain ok w where d: "check_numeric_column name f v = Done ok w"
    and rest: "numeric_loop cols (if \<not> ok then False else all_valid) w = Done r v'"
    by (auto split: result.splits)
  have "df w = df v" using check_numeric_column_keeps[of name f v] d by simp
  then show ?case
    using "2.IH"[OF d rest] check_numeric_column_Done[OF d] by simp
qed

lemma first_missing_Some: "first_missing names d = None \<Longrightarrow> set names \<subseteq> set (columns d)"
  by (induction names) (auto split: if_splits)

lemma steps_return_columns:
  assumes "run_steps (steps set_order parse now) True v = Done r v'"
  shows "set required_columns \<subseteq> set (columns (df v))"
proof -
  have "(''Numeric Validation'', validate_numeric_columns) \<in> set (steps set_order parse now)"
    by (simp add: steps_def)
  from run_steps_all_return[OF assms keeps_columns_steps this]
  obtain w1 ok1 w1' where n: "validate_numeric_columns w1 = Done ok1 w1'"
    "columns (df w1) = columns (df v)"
    by blast
  have "(''Categorical Validation'', validate_categorical_columns) \<in> set (steps set_order parse now)"
    by (simp add: steps_def)
  from run_steps_all_return[OF assms keeps_columns_steps this]
  obtain w2 ok2 w2' where c: "validate_categorical_columns w2 = Done ok2 w2'"
    "columns (df w2) = columns (df v)"
    by blast
  have "(''Summary Statistics'', summary_step) \<in> set (steps set_order parse now)"
    by (simp add: steps_def)
  from run_steps_all_return[OF assms keeps_columns_steps this]
  obtain w3 ok3 w3' where s: "summary_step w3 = Done ok3 w3'"
    "columns (df w3) = columns (df v)"
    by blast
  have "numeric_loop numeric_cols True w1 = Done ok1 w1'"
    using n(1) by (simp add: validate_numeric_columns_def)
  from numeric_loop_Done[OF this] have a: "fst ` set numeric_cols \<subseteq> set (columns (df v))"
    by (simp add: n(2))
  have "first_missing [''page'', ''device'', ''country''] (df w2) = None"
  proof (cases "first_missing [''page'', ''device'', ''country''] (df w2)")
    case None
    then show ?thesis .
  next
    case (Some name)
    then show ?thesis
      using c(1) by (simp add: validate_categorical_columns_def del: first_missing.simps)
  qed
  from first_missing_Some[OF this] have b: "set [''page'', ''device'', ''country''] \<subseteq> set (columns (df v))"
    by (simp add: c(2))
  have "first_missing [''date''] (df w3) = None"
  proof (cases "first_missing [''date''] (df w3)")
    case None
    then show ?thesis .
  next
    case (Some name)
    then show ?thesis
      using s(1)
      by (simp add: summary_step_def generate_summary_stats_def del: first_missing.simps)
  qed
  from first_missing_Some[OF this] have d: "''date'' \<in> set (columns (df v))"
    by (simp add: s(2))
  have a': "''sessions'' \<in> set (columns (df v))" "''users'' \<in> set (columns (df v))"
    "''conversions'' \<in> set (columns (df v))" "''bounce_rate'' \<in> set (columns (df v))"
    "''avg_session_duration'' \<in> set (columns (df v))"
    using a by (simp_all add: numeric_cols_def)
  have b': "''page'' \<in> set (columns (df v))" "''device'' \<in> set (columns (df v))"
    "''country'' \<in> set (columns (df v))"
    using b by simp_all
  show ?thesis
    by (simp add: required_columns_def a' b' d)
qed

lemma missing_column_uncaught:
  assumes "\<not> set required_columns \<subseteq> set (columns d)"
  shows "\<exists>e v. run_full_validation writes_through set_order parse now response (Some d) = Uncaught e v"
proof (cases "run_steps (steps set_order parse now) True \<lparr>df = d, issues = [], printed = []\<rparr>")
  case (Raised e v)
  then show ?thesis by (simp add: run_full_validation_def)
next
  case (Done r v)
  from steps_return_columns[OF Done] assms show ?thesis by simp
qed

subsection \<open>Claims about the validator\<close>

text \<open>
  Claim C6 does not hold as stated. Validating the sample frame replaces the text of its
  date cell by the parsed timestamp.
\<close>

lemma validation_mutates_dates:
  "map_option df (final_state (run_full_validation True name_order sample_parse 29895840 ''n'' (Some sample_frame)))
     = Some (sample_frame\<lparr>rows := [sample_row\<lparr>date := Stamp 28401720\<rparr>]\<rparr>) \<and>
   sample_frame\<lparr>rows := [sample_row\<lparr>date := Stamp 28401720\<rparr>]\<rparr> \<noteq> sample_frame"
  by code_simp

text \<open>
  Claim C6, amended. When the operator does not accept the cleaning offered after the
  report, the validator leaves the header, the number and the order of the rows and every
  column but \<open>date\<close> as loaded; the date column holds the parsed timestamps when it
  exists and every date parses, and is as loaded otherwise.
\<close>

theorem validation_only_parses_dates:
  assumes "response \<noteq> ''y''" "response \<noteq> ''Y''"
  shows "\<exists>v. final_state (run_full_validation writes_through set_order parse now response (Some d)) = Some v \<and>
           df v = dates_parsed parse d \<and> columns (df v) = columns d \<and>
           map erase_date (rows (df v)) = map erase_date (rows d)"
proof -
  from run_steps_steps[of set_order parse now d]
  have f: "df (state_of (run_steps (steps set_order parse now) True \<lparr>df = d, issues = [], printed = []\<rparr>))
             = dates_parsed parse d"
    by simp
  have "\<exists>v. final_state (run_full_validation writes_through set_order parse now response (Some d)) = Some v \<and>
           df v = dates_parsed parse d"
    using f assms
    by (cases "run_steps (steps set_order parse now) True \<lparr>df = d, issues = [], printed = []\<rparr>")
      (simp_all add: run_full_validation_def)
  then show ?thesis
    by (auto simp: dates_parsed_columns dates_parsed_erase)
qed

text \<open>The run on the sample frame, with the answer \<open>n\<close>.\<close>

theorem validation_only_parses_dates_witness:
  "\<exists>v. final_state (run_full_validation True name_order sample_parse 29895840 ''n'' (Some sample_frame)) = Some v \<and>
       df v = dates_parsed sample_parse sample_frame \<and> columns (df v) = columns sample_frame \<and>
       map erase_date (rows (df v)) = map erase_date (rows sample_frame)"
  by (rule validation_only_parses_dates) simp_all

text \<open>
  Claim C7 does not hold as stated. On a frame without the \<open>page\<close> column the date
  and the numeric checks still run and add their issues, and the run ends in the
  \<open>KeyError\<close> of the categorical check.
\<close>

lemma missing_column_checks_continue:
  "run_full_validation True name_order sample_parse 29895840 ''n'' (Some no_page_frame) =
     Uncaught (KeyError ''page'')
       \<lparr>df = no_page_frame\<lparr>rows := [sample_row\<lparr>date := Stamp 31558200, page := []\<rparr>]\<rparr>,
        issues = [MissingColumns [''page''], FutureDates 1, InvalidBounceRate 1],
        printed = [''Column Validation'', ''Date Validation'', ''Numeric Validation'',
                   ''Categorical Validation'']\<rparr>"
  by code_simp

text \<open>
  Claim C7, amended. When a required column is missing, the schema check adds one issue
  that names the missing columns, leaves the frame alone and returns false, so that the
  run cannot return true; but it does not halt the pipeline: the date check and the
  numeric check are started on the same frame.
\<close>

theorem missing_column_does_not_halt:
  assumes "\<not> set required_columns \<subseteq> set (columns d)"
  shows "validate_columns set_order \<lparr>df = d, issues = iss, printed = ps\<rparr> =
           Done False \<lparr>df = d, issues = iss @ [MissingColumns (set_order (set required_columns - set (columns d)))],
                       printed = ps\<rparr> \<and>
         (\<exists>v. final_state (run_full_validation writes_through set_order parse now response (Some d)) = Some v \<and>
              hd (issues v) = MissingColumns (set_order (set required_columns - set (columns d))) \<and>
              take 3 (printed v) =
                [''Column Validation'', ''Date Validation'', ''Numeric Validation'']) \<and>
         (\<forall>v. run_full_validation writes_through set_order parse now response (Some d) \<noteq> Returned True v)"
proof -
  let ?missing = "set required_columns - set (columns d)"
  let ?run = "run_steps (steps set_order parse now) True \<lparr>df = d, issues = [], printed = []\<rparr>"
  have m: "?missing \<noteq> {}" using assms by blast
  have a: "validate_columns set_order \<lparr>df = d, issues = iss, printed = ps\<rparr> =
           Done False \<lparr>df = d, issues = iss @ [MissingColumns (set_order ?missing)], printed = ps\<rparr>"
    using m by (simp add: validate_columns_def Let_def append_issue_def)
  from run_steps_steps[of set_order parse now d] m
  have f: "hd (issues (state_of ?run)) = MissingColumns (set_order ?missing)"
    "take 3 (printed (state_of ?run)) = [''Column Validation'', ''Date Validation'', ''Numeric Validation'']"
    "\<And>r v'. ?run = Done r v' \<Longrightarrow> \<not> r"
    by auto
  have b: "\<exists>v. final_state (run_full_validation writes_through set_order parse now response (Some d)) = Some v \<and>
              hd (issues v) = MissingColumns (set_order ?missing) \<and>
              take 3 (printed v) = [''Column Validation'', ''Date Validation'', ''Numeric Validation'']"
  proof (cases ?run)
    case (Raised e v)
    then show ?thesis using f(1,2) by (simp add: run_full_validation_def)
  next
    case (Done r v)
    show ?thesis
    proof (cases "issues v \<noteq> [] \<and> (response = ''y'' \<or> response = ''Y'')")
      case True
      then show ?thesis
        using f(1,2) Done clean_frame_keeps[of writes_through v]
        by (cases "clean_frame writes_through v") (auto simp: run_full_validation_def)
    next
      case False
      then show ?thesis using f(1,2) Done by (auto simp: run_full_validation_def)
    qed
  qed
  have c: "\<forall>v. run_full_validation writes_through set_order parse now response (Some d) \<noteq> Returned True v"
  proof (cases ?run)
    case (Raised e v)
    then show ?thesis by (simp add: run_full_validation_def)
  next
    case (Done r v)
    then have "\<not> r" using f(3) by blast
    then show ?thesis using Done
      by (auto simp: run_full_validation_def split: result.splits)
  qed
  show ?thesis using a b c by blast
qed

text \<open>The frame without the \<open>page\<close> column.\<close>

theorem missing_column_does_not_halt_witness:
  "validate_columns name_order \<lparr>df = no_page_frame, issues = [], printed = []\<rparr> =
     Done False \<lparr>df = no_page_frame,
                 issues = [] @ [MissingColumns (name_order (set required_columns - set (columns no_page_frame)))],
                 printed = []\<rparr> \<and>
   (\<exists>v. final_state (run_full_validation True name_order sample_parse 29895840 ''n'' (Some no_page_frame)) = Some v \<and>
        hd (issues v) = MissingColumns (name_order (set required_columns - set (columns no_page_frame))) \<and>
        take 3 (printed v) = [''Column Validation'', ''Date Validation'', ''Numeric Validation'']) \<and>
   (\<forall>v. run_full_validation True name_order sample_parse 29895840 ''n'' (Some no_page_frame) \<noteq> Returned True v)"
proof -
  have "''page'' \<in> set required_columns" "''page'' \<notin> set (columns no_page_frame)"
    by (simp_all add: required_columns_def no_page_frame_def)
  then have "\<not> set required_columns \<subseteq> set (columns no_page_frame)" by blast
  then show ?thesis by (rule missing_column_does_not_halt)
qed







end
